theory Spec2Isabelle
  imports
    Main
    "HOL-Library.Char_ord"
    "HOL-Library.List_Lexorder"
    "HOL-Library.Product_Lexorder"
begin

section \<open>JavaScript and SQLite values\<close>

text \<open>
  The attendance tracker keeps its data in SQLite tables and its times of day as TEXT
  in the form \<^verbatim>\<open>HH:MM\<close>. SQLite compares TEXT values byte by byte, which is the
  lexicographic order on \<^typ>\<open>string\<close> with characters ordered by their code.

  A JavaScript number that may be \<^verbatim>\<open>NaN\<close> (or the \<^verbatim>\<open>undefined\<close> that arithmetic
  turns into \<^verbatim>\<open>NaN\<close>) is an \<^typ>\<open>int option\<close>, \<^term>\<open>None\<close> being \<^verbatim>\<open>NaN\<close>:
  arithmetic keeps \<^term>\<open>None\<close> and every comparison with it is false.
\<close>

type_synonym jsnum = "int option"

definition js_add :: "jsnum \<Rightarrow> int \<Rightarrow> jsnum" where
  "js_add a k = map_option (\<lambda>x. x + k) a"

definition js_ge :: "jsnum \<Rightarrow> int \<Rightarrow> bool" where
  "js_ge a k = (case a of None \<Rightarrow> False | Some x \<Rightarrow> k \<le> x)"

definition js_le :: "jsnum \<Rightarrow> int \<Rightarrow> bool" where
  "js_le a k = (case a of None \<Rightarrow> False | Some x \<Rightarrow> x \<le> k)"

text \<open>\<^verbatim>\<open>endHour * 60 + endMinute\<close> and \<^verbatim>\<open>sessionEndTime - currentTime\<close>.\<close>

definition js_minutes :: "jsnum \<Rightarrow> jsnum \<Rightarrow> jsnum" where
  "js_minutes h m =
     (case h of None \<Rightarrow> None
      | Some x \<Rightarrow> (case m of None \<Rightarrow> None | Some y \<Rightarrow> Some (x * 60 + y)))"

text \<open>Decimal rendering of a number, as a template literal or \<^verbatim>\<open>String(n)\<close> gives it.\<close>

definition digit_char :: "nat \<Rightarrow> char" where
  "digit_char d = ''0123456789'' ! d"

function string_of_nat :: "nat \<Rightarrow> string" where
  "string_of_nat n =
     (if n < 10 then [digit_char n] else string_of_nat (n div 10) @ [digit_char (n mod 10)])"
  by pat_completeness auto
termination
  by (relation "measure id") auto

declare string_of_nat.simps [simp del]

definition string_of_int :: "int \<Rightarrow> string" where
  "string_of_int i =
     (if i < 0 then CHR ''-'' # string_of_nat (nat (- i)) else string_of_nat (nat i))"

text \<open>\<^verbatim>\<open>s.padStart(2, '0')\<close>.\<close>

definition padStart2 :: "string \<Rightarrow> string" where
  "padStart2 s = replicate (2 - length s) CHR ''0'' @ s"

text \<open>
  \<^verbatim>\<open>Number(s)\<close> on a string of decimal digits (the empty string is 0), as the fields of
  an \<^verbatim>\<open>HH:MM\<close> value are. On every other string the model answers \<^verbatim>\<open>NaN\<close>; JavaScript
  also reads signs, surrounding white space, decimal points, exponents and radix
  prefixes, so the model is that of \<^verbatim>\<open>Number\<close> on strings of digits and on strings that
  are no numeric literal at all. The theorems apply it to no other string.
\<close>

definition is_digit :: "char \<Rightarrow> bool" where
  "is_digit c = (CHR ''0'' \<le> c \<and> c \<le> CHR ''9'')"

definition digit_val :: "char \<Rightarrow> int" where
  "digit_val c = of_char c - 48"

definition Number :: "string \<Rightarrow> jsnum" where
  "Number s =
     (if list_all is_digit s then Some (foldl (\<lambda>a c. 10 * a + digit_val c) 0 s) else None)"

text \<open>\<^verbatim>\<open>s.split(':')\<close>.\<close>

fun split_colon :: "string \<Rightarrow> string list" where
  "split_colon [] = [] # []"
| "split_colon (c # cs) =
     (if c = CHR '':'' then [] # split_colon cs
      else (case split_colon cs of [] \<Rightarrow> [c] # [] | p # ps \<Rightarrow> (c # p) # ps))"

text \<open>
  \<^verbatim>\<open>const [hour, minute] = end_time.split(':').map(Number)\<close>: a missing second part
  leaves \<^verbatim>\<open>minute\<close> undefined.
\<close>

definition split_hour_minute :: "string \<Rightarrow> jsnum \<times> jsnum" where
  "split_hour_minute t =
     (case map Number (split_colon t) of
        [] \<Rightarrow> (None, None)
      | [h] \<Rightarrow> (h, None)
      | h # m # _ \<Rightarrow> (h, m))"

subsection \<open>The wall clock\<close>

text \<open>
  A \<^verbatim>\<open>new Date()\<close>, as far as the code reads it: \<^verbatim>\<open>getDay()\<close> (0 = Sunday),
  \<^verbatim>\<open>getHours()\<close> and \<^verbatim>\<open>getMinutes()\<close>.
\<close>

record js_date =
  getDay :: int
  getHours :: nat
  getMinutes :: nat

definition valid_date :: "js_date \<Rightarrow> bool" where
  "valid_date now = (0 \<le> getDay now \<and> getDay now \<le> 6 \<and> getHours now < 24 \<and> getMinutes now < 60)"

text \<open>The \<^verbatim>\<open>HH:MM\<close> text of an hour and a minute.\<close>

definition hhmm :: "nat \<Rightarrow> nat \<Rightarrow> string" where
  "hhmm h m = padStart2 (string_of_nat h) @ '':'' @ padStart2 (string_of_nat m)"

text \<open>\<^verbatim>\<open>now.toTimeString().substring(0, 5)\<close>.\<close>

definition currentTime :: "js_date \<Rightarrow> string" where
  "currentTime now = hhmm (getHours now) (getMinutes now)"

text \<open>
  The minute of the day a well-formed \<^verbatim>\<open>HH:MM\<close> text stands for; \<^term>\<open>None\<close> on
  any other text.
\<close>

definition minute_of_day :: "string \<Rightarrow> nat option" where
  "minute_of_day t =
     (case t of
        [a, b, c, d, e] \<Rightarrow>
          (if is_digit a \<and> is_digit b \<and> c = CHR '':'' \<and> is_digit d \<and> is_digit e
              \<and> 10 * digit_val a + digit_val b < 24 \<and> 10 * digit_val d + digit_val e < 60
           then Some (nat (60 * (10 * digit_val a + digit_val b) + (10 * digit_val d + digit_val e)))
           else None)
      | _ \<Rightarrow> None)"

definition wf_time :: "string \<Rightarrow> bool" where
  "wf_time t = (minute_of_day t \<noteq> None)"

section \<open>The database (database.js)\<close>

text \<open>
  A database call hands its callback either an error or a result. Which calls fail is an
  input of the model: a predicate on the call sites.
\<close>

datatype db_call =
    GetMemberByBarcode
  | GetLastScanForMember
  | IsWithinMeetingSchedule
  | NextSessionToday
  | NextSessionWeek
  | RecordAttendance
  | CountAttendanceRecords
  | SelectCheckedIn
  | RecordAutoLogout int
  | GetMeetingSchedules
  | RearmGetMeetingSchedules
  | DeleteMeetingSchedule int int
  | UpdateMeetingSchedule int int

type_synonym faults = "db_call \<Rightarrow> bool"

definition no_faults :: faults where
  "no_faults = (\<lambda>_. False)"

datatype db_error = DbError

record member =
  m_id :: int
  m_name :: string
  m_barcode :: string

record attendance_record =
  ar_id :: int
  member_id :: int
  scan_time :: string
  is_checkin :: bool
  is_auto_logout :: bool
  needs_review :: bool

text \<open>
  A row of \<^verbatim>\<open>meeting_schedules\<close>. The table is a list in rowid order; the columns
  \<^verbatim>\<open>id\<close> and \<^verbatim>\<open>created_at\<close>, which no query reads, are left out. SQLite keeps an
  index for \<^verbatim>\<open>UNIQUE(day_of_week, session_number)\<close> and answers a query that fixes
  \<^verbatim>\<open>day_of_week\<close> by walking it, so the rows of one day come in the order of their
  session numbers.
\<close>

record meeting_schedule =
  day_of_week :: int
  session_number :: int
  start_time :: string
  end_time :: string
  is_active :: bool
  session_name :: "string option"

record database =
  members :: "member list"
  attendance_records :: "attendance_record list"
  attendance_seq :: int
  meeting_schedules :: "meeting_schedule list"

text \<open>\<^verbatim>\<open>db.get\<close> yields the first row of the result, or nothing.\<close>

definition first_row :: "'a list \<Rightarrow> 'a option" where
  "first_row rows = (case rows of [] \<Rightarrow> None | r # _ \<Rightarrow> Some r)"

subsection \<open>Schedule store and evaluator\<close>

definition getMeetingSchedules :: "bool \<Rightarrow> database \<Rightarrow> db_error + meeting_schedule list" where
  "getMeetingSchedules failed db =
     (if failed then Inl DbError
      else Inr (sort_key (\<lambda>s. (day_of_week s, session_number s))
                  (filter is_active (meeting_schedules db))))"

text \<open>
  \<^verbatim>\<open>WHERE day_of_week = ? AND is_active = true AND start_time <= ? AND end_time >= ?\<close>
\<close>

definition within_window :: "js_date \<Rightarrow> meeting_schedule \<Rightarrow> bool" where
  "within_window now s =
     (day_of_week s = getDay now \<and> is_active s
      \<and> start_time s \<le> currentTime now \<and> end_time s \<ge> currentTime now)"

definition isWithinMeetingSchedule ::
  "faults \<Rightarrow> js_date \<Rightarrow> database \<Rightarrow> db_error + meeting_schedule option" where
  "isWithinMeetingSchedule flt now db =
     (if flt IsWithinMeetingSchedule then Inl DbError
      else Inr (first_row (sort_key session_number
                  (filter (within_window now) (meeting_schedules db)))))"

text \<open>
  The two queries of \<^verbatim>\<open>getNextMeetingSession\<close>. The sort of \<^verbatim>\<open>ORDER BY\<close> keeps rows
  of equal key in the order the scan delivers them.
\<close>

definition next_today :: "js_date \<Rightarrow> meeting_schedule list \<Rightarrow> meeting_schedule option" where
  "next_today now rows =
     first_row (sort_key start_time (sort_key session_number
       (filter (\<lambda>s. day_of_week s = getDay now \<and> is_active s \<and> start_time s > currentTime now)
          rows)))"

definition week_order :: "int \<Rightarrow> meeting_schedule \<Rightarrow> int \<times> int" where
  "week_order d s =
     (if day_of_week s > d then day_of_week s else day_of_week s + 7, session_number s)"

definition next_in_week :: "js_date \<Rightarrow> meeting_schedule list \<Rightarrow> meeting_schedule option" where
  "next_in_week now rows =
     first_row (sort_key (week_order (getDay now))
       (filter (\<lambda>s. ((day_of_week s > getDay now \<and> day_of_week s \<le> 6)
                      \<or> (day_of_week s \<ge> 0 \<and> day_of_week s < getDay now))
                    \<and> is_active s)
          rows))"

definition getNextMeetingSession ::
  "faults \<Rightarrow> js_date \<Rightarrow> database \<Rightarrow> db_error + meeting_schedule option" where
  "getNextMeetingSession flt now db =
     (let todaySession =
            (if flt NextSessionToday then Inl DbError
             else Inr (next_today now (meeting_schedules db)))
      in case todaySession of
           Inr (Some s) \<Rightarrow> Inr (Some s)
         | _ \<Rightarrow>
           (if flt NextSessionWeek then Inl DbError
            else Inr (next_in_week now (meeting_schedules db))))"

text \<open>
  \<^verbatim>\<open>INSERT OR REPLACE\<close> on the key \<^verbatim>\<open>UNIQUE(day_of_week, session_number)\<close>: the rows
  with that key are removed and the new row, with a fresh rowid, comes last. The name is
  \<^verbatim>\<open>sessionName || `Session ${sessionNumber}`\<close>, so a missing or empty name takes the default.
\<close>

definition updateMeetingSchedule ::
  "bool \<Rightarrow> int \<Rightarrow> int \<Rightarrow> string \<Rightarrow> string \<Rightarrow> string option \<Rightarrow> database
     \<Rightarrow> db_error + database" where
  "updateMeetingSchedule failed dayOfWeek sessionNumber startTime endTime sessionName db =
     (if failed then Inl DbError
      else Inr (db\<lparr>meeting_schedules :=
        filter (\<lambda>s. \<not> (day_of_week s = dayOfWeek \<and> session_number s = sessionNumber))
          (meeting_schedules db)
        @ [\<lparr>day_of_week = dayOfWeek, session_number = sessionNumber,
            start_time = startTime, end_time = endTime, is_active = True,
            session_name = Some (case sessionName of
                None \<Rightarrow> ''Session '' @ string_of_int sessionNumber
              | Some n \<Rightarrow> if n = [] then ''Session '' @ string_of_int sessionNumber else n)\<rparr>]\<rparr>))"

definition deleteMeetingSchedule :: "bool \<Rightarrow> int \<Rightarrow> int \<Rightarrow> database \<Rightarrow> db_error + database" where
  "deleteMeetingSchedule failed dayOfWeek sessionNumber db =
     (if failed then Inl DbError
      else Inr (db\<lparr>meeting_schedules :=
        map (\<lambda>s. if day_of_week s = dayOfWeek \<and> session_number s = sessionNumber
                 then s\<lparr>is_active := False\<rparr> else s)
          (meeting_schedules db)\<rparr>))"

subsection \<open>Attendance records\<close>

text \<open>
  An insert takes the next \<^verbatim>\<open>AUTOINCREMENT\<close> id (one more than the largest id the
  table has or ever had) and the database clock's \<^verbatim>\<open>CURRENT_TIMESTAMP\<close>, the
  argument \<open>ts\<close>.
\<close>

definition next_attendance_id :: "database \<Rightarrow> int" where
  "next_attendance_id db = fold max (map ar_id (attendance_records db)) (attendance_seq db) + 1"

definition insert_attendance ::
  "string \<Rightarrow> int \<Rightarrow> bool \<Rightarrow> bool \<Rightarrow> bool \<Rightarrow> database \<Rightarrow> database" where
  "insert_attendance ts memberId isCheckin autoLogout needsReview db =
     db\<lparr>attendance_records := attendance_records db
          @ [\<lparr>ar_id = next_attendance_id db, member_id = memberId, scan_time = ts,
              is_checkin = isCheckin, is_auto_logout = autoLogout,
              needs_review = needsReview\<rparr>],
        attendance_seq := next_attendance_id db\<rparr>"

definition recordAttendance ::
  "faults \<Rightarrow> string \<Rightarrow> int \<Rightarrow> bool \<Rightarrow> bool \<Rightarrow> database \<Rightarrow> db_error + database" where
  "recordAttendance flt ts memberId isCheckin needsReview db =
     (if flt RecordAttendance then Inl DbError
      else Inr (insert_attendance ts memberId isCheckin False needsReview db))"

definition recordAutoLogout :: "faults \<Rightarrow> string \<Rightarrow> int \<Rightarrow> database \<Rightarrow> db_error + database" where
  "recordAutoLogout flt ts memberId db =
     (if flt (RecordAutoLogout memberId) then Inl DbError
      else Inr (insert_attendance ts memberId False True True db))"

definition getMemberByBarcode :: "faults \<Rightarrow> string \<Rightarrow> database \<Rightarrow> db_error + member option" where
  "getMemberByBarcode flt barcode db =
     (if flt GetMemberByBarcode then Inl DbError
      else Inr (first_row (filter (\<lambda>m. m_barcode m = barcode) (members db))))"

text \<open>
  A descending \<^verbatim>\<open>ORDER BY\<close>: the largest key first, rows of equal key in the order the
  scan delivers them.
\<close>

definition sort_key_desc :: "('a \<Rightarrow> 'k::linorder) \<Rightarrow> 'a list \<Rightarrow> 'a list" where
  "sort_key_desc f xs = rev (sort_key f (rev xs))"

text \<open>
  \<^verbatim>\<open>ORDER BY scan_time DESC LIMIT 1\<close>. The table has no index on \<^verbatim>\<open>member_id\<close> or
  \<^verbatim>\<open>scan_time\<close>, so it is scanned in the order of its primary key \<^verbatim>\<open>id\<close>: among the
  member's rows with the latest \<^verbatim>\<open>scan_time\<close> (the timestamps have a resolution of one
  second) the query returns the one with the lowest id.
\<close>

definition getLastScanForMember ::
  "faults \<Rightarrow> int \<Rightarrow> database \<Rightarrow> db_error + attendance_record option" where
  "getLastScanForMember flt memberId db =
     (if flt GetLastScanForMember then Inl DbError
      else Inr (first_row (sort_key_desc scan_time (sort_key ar_id
                  (filter (\<lambda>r. member_id r = memberId) (attendance_records db))))))"

text \<open>\<^verbatim>\<open>SELECT MAX(id) FROM attendance_records ar2 WHERE ar2.member_id = m.id\<close>\<close>

definition max_id_for :: "attendance_record list \<Rightarrow> int \<Rightarrow> int option" where
  "max_id_for recs memberId =
     (case map ar_id (filter (\<lambda>r. member_id r = memberId) recs) of
        [] \<Rightarrow> None
      | i # ids \<Rightarrow> Some (fold max ids i))"

record checked_in_member =
  cm_id :: int
  cm_name :: string
  last_checkin :: string

definition checked_in_query :: "database \<Rightarrow> checked_in_member list" where
  "checked_in_query db =
     sort_key_desc last_checkin (remdups (concat (map
       (\<lambda>m. map (\<lambda>ar. \<lparr>cm_id = m_id m, cm_name = m_name m, last_checkin = scan_time ar\<rparr>)
          (filter (\<lambda>ar. m_id m = member_id ar
                       \<and> Some (ar_id ar) = max_id_for (attendance_records db) (m_id m)
                       \<and> is_checkin ar)
             (attendance_records db)))
       (members db))))"

definition getCurrentlyCheckedInMembers ::
  "faults \<Rightarrow> database \<Rightarrow> db_error + checked_in_member list" where
  "getCurrentlyCheckedInMembers flt db =
     (if flt CountAttendanceRecords then Inl DbError
      else if length (attendance_records db) = 0 then Inr []
      else if flt SelectCheckedIn then Inl DbError
      else Inr (checked_in_query db))"

section \<open>The server (server.js)\<close>

subsection \<open>Auto-logout scheduler\<close>

text \<open>
  \<^verbatim>\<open>meetingSchedulers\<close> maps the key \<^verbatim>\<open>`${day_of_week}-${session_number}`\<close> to the cron
  job armed for that session; a job is the minute, hour and day-of-week field of its
  expression \<^verbatim>\<open>`${logoutMinute} ${logoutHour} * * ${day_of_week}`\<close>.
\<close>

record cron_job =
  cron_minute :: jsnum
  cron_hour :: jsnum
  cron_day_of_week :: int

type_synonym schedulers = "string \<rightharpoonup> cron_job"

definition schedulerId :: "int \<Rightarrow> int \<Rightarrow> string" where
  "schedulerId d n = string_of_int d @ ''-'' @ string_of_int n"

text \<open>The logout hour and minute: 15 minutes after \<^verbatim>\<open>end_time\<close>.\<close>

definition logout_hour_minute :: "string \<Rightarrow> jsnum \<times> jsnum" where
  "logout_hour_minute t =
     (let (hour, minute) = split_hour_minute t;
          logoutMinute = js_add minute 15;
          logoutHour = hour;
          (logoutMinute, logoutHour) =
             (if js_ge logoutMinute 60 then (js_add logoutMinute (- 60), js_add logoutHour 1)
              else (logoutMinute, logoutHour));
          logoutHour = (if js_ge logoutHour 24 then js_add logoutHour (- 24) else logoutHour)
      in (logoutHour, logoutMinute))"

text \<open>The job that \<^verbatim>\<open>cron.schedule(cronExpression, ...)\<close> creates for a schedule row.\<close>

definition cron_for :: "meeting_schedule \<Rightarrow> cron_job" where
  "cron_for schedule =
     (let (logoutHour, logoutMinute) = logout_hour_minute (end_time schedule)
      in \<lparr>cron_minute = logoutMinute, cron_hour = logoutHour,
          cron_day_of_week = day_of_week schedule\<rparr>)"

text \<open>
  \<^verbatim>\<open>cron.schedule\<close> belongs to the node-cron library, not to this repository. It checks
  the expression and throws on an invalid one; the model takes as valid the numeric fields
  the library documents: a minute from 0 to 59, an hour from 0 to 23 and a day of the week
  from 0 to 7. A field that is \<^verbatim>\<open>NaN\<close> is invalid.
\<close>

definition cron_accepts :: "cron_job \<Rightarrow> bool" where
  "cron_accepts job =
     ((case cron_minute job of None \<Rightarrow> False | Some m \<Rightarrow> 0 \<le> m \<and> m \<le> 59)
      \<and> (case cron_hour job of None \<Rightarrow> False | Some h \<Rightarrow> 0 \<le> h \<and> h \<le> 23)
      \<and> 0 \<le> cron_day_of_week job \<and> cron_day_of_week job \<le> 7)"

definition arm :: "schedulers \<Rightarrow> meeting_schedule \<Rightarrow> schedulers" where
  "arm ms schedule =
     ms(schedulerId (day_of_week schedule) (session_number schedule) \<mapsto> cron_for schedule)"

text \<open>
  The \<^verbatim>\<open>forEach\<close> over the schedules. Nothing catches what \<^verbatim>\<open>cron.schedule\<close> throws, so
  the first row whose expression is refused ends the loop: the rows before it are armed,
  that row and the rows after it are not. The result is the registry and whether the loop
  threw.
\<close>

fun arm_each :: "schedulers \<Rightarrow> meeting_schedule list \<Rightarrow> schedulers \<times> bool" where
  "arm_each ms [] = (ms, False)"
| "arm_each ms (schedule # rest) =
     (if cron_accepts (cron_for schedule) then arm_each (arm ms schedule) rest
      else (ms, True))"

datatype rearm_outcome =
    Rearmed
  | ScheduleReadFailed
  | CronScheduleThrew

text \<open>
  Every armed job is stopped and the registry emptied before the schedule table is read.
\<close>

definition initializeMeetingScheduler ::
  "faults \<Rightarrow> database \<Rightarrow> schedulers \<Rightarrow> schedulers \<times> rearm_outcome" where
  "initializeMeetingScheduler flt db meetingSchedulers =
     (let cleared = Map.empty
      in case getMeetingSchedules (flt RearmGetMeetingSchedules) db of
           Inl err \<Rightarrow> (cleared, ScheduleReadFailed)
         | Inr schedules \<Rightarrow>
             (case arm_each cleared schedules of
                (armed, threw) \<Rightarrow> (armed, if threw then CronScheduleThrew else Rearmed)))"

subsection \<open>Force-logout pass\<close>

datatype logout_summary =
    CheckedInReadFailed
  | NoMembersCheckedIn
  | LogoutCompleted nat nat

text \<open>The state of the loop: the database, \<^verbatim>\<open>processed\<close> and \<^verbatim>\<open>errors\<close>.\<close>

definition logout_member ::
  "faults \<Rightarrow> string \<Rightarrow> database \<times> nat \<times> nat \<Rightarrow> checked_in_member \<Rightarrow> database \<times> nat \<times> nat" where
  "logout_member flt ts st member =
     (case st of (db, processed, errors) \<Rightarrow>
        (case recordAutoLogout flt ts (cm_id member) db of
           Inl err \<Rightarrow> (db, processed + 1, errors + 1)
         | Inr db' \<Rightarrow> (db', processed + 1, errors)))"

text \<open>
  \<^verbatim>\<open>LogoutCompleted\<close> carries the two numbers of the summary line:
  \<^verbatim>\<open>processed - errors\<close> successful and \<^verbatim>\<open>errors\<close> errors.
\<close>

definition performMeetingEndLogout ::
  "faults \<Rightarrow> string \<Rightarrow> database \<Rightarrow> database \<times> logout_summary" where
  "performMeetingEndLogout flt ts db =
     (case getCurrentlyCheckedInMembers flt db of
        Inl err \<Rightarrow> (db, CheckedInReadFailed)
      | Inr checkedInMembers \<Rightarrow>
          if length checkedInMembers = 0 then (db, NoMembersCheckedIn)
          else (case foldl (logout_member flt ts) (db, 0, 0) checkedInMembers of
                  (db', processed, errors) \<Rightarrow>
                    (db', LogoutCompleted (processed - errors) errors)))"

subsection \<open>Scanning a barcode\<close>

text \<open>
  The clock is read once in \<^verbatim>\<open>isWithinMeetingSchedule\<close>, once in
  \<^verbatim>\<open>getNextMeetingSession\<close> and once in \<^verbatim>\<open>recordAttendanceWithSession\<close>; the database
  stamps the inserted row with its own clock.
\<close>

record clock =
  at_isWithin :: js_date
  at_getNext :: js_date
  at_record :: js_date
  current_timestamp :: string

definition dayNames :: "string list" where
  "dayNames = [''Sunday'', ''Monday'', ''Tuesday'', ''Wednesday'', ''Thursday'', ''Friday'',
     ''Saturday'']"

record next_session_hint =
  hint_day :: "string option"
  hint_startTime :: string
  hint_endTime :: string

definition next_hint :: "meeting_schedule \<Rightarrow> next_session_hint" where
  "next_hint s =
     \<lparr>hint_day = (if 0 \<le> day_of_week s \<and> day_of_week s < 7
                  then Some (dayNames ! nat (day_of_week s)) else None),
      hint_startTime = start_time s, hint_endTime = end_time s\<rparr>"

record session_info =
  info_number :: int
  info_startTime :: string
  info_endTime :: string

datatype scan_response =
    BarcodeRequired
  | DatabaseError
  | MemberNotFound
  | ScheduleCheckError
  | CheckInNotAllowed "next_session_hint option"
  | ScanRecorded member string "session_info option" bool

text \<open>\<^verbatim>\<open>now.getHours() * 60 + now.getMinutes()\<close>\<close>

definition minutes_from_midnight :: "js_date \<Rightarrow> int" where
  "minutes_from_midnight now = int (getHours now * 60 + getMinutes now)"

definition near_session_end :: "js_date \<Rightarrow> meeting_schedule \<Rightarrow> bool" where
  "near_session_end now session =
     (let currentTime = minutes_from_midnight now;
          (endHour, endMinute) = split_hour_minute (end_time session);
          sessionEndTime = js_minutes endHour endMinute;
          minutesUntilEnd = js_add sessionEndTime (- currentTime)
      in js_le minutesUntilEnd 5 \<and> js_ge minutesUntilEnd 0)"

definition recordAttendanceWithSession ::
  "faults \<Rightarrow> clock \<Rightarrow> member \<Rightarrow> bool \<Rightarrow> meeting_schedule option \<Rightarrow> database
     \<Rightarrow> database \<times> scan_response" where
  "recordAttendanceWithSession flt clk member isCheckin session db =
     (let needsReview =
            (case session of
               None \<Rightarrow> False
             | Some s \<Rightarrow> isCheckin \<and> near_session_end (at_record clk) s)
      in case recordAttendance flt (current_timestamp clk) (m_id member) isCheckin needsReview db of
           Inl err \<Rightarrow> (db, DatabaseError)
         | Inr db' \<Rightarrow>
             (db', ScanRecorded member (if isCheckin then ''check-in'' else ''check-out'')
                (case session of
                   None \<Rightarrow> None
                 | Some s \<Rightarrow>
                     if isCheckin
                     then Some \<lparr>info_number = session_number s, info_startTime = start_time s,
                                info_endTime = end_time s\<rparr>
                     else None)
                needsReview))"

text \<open>\<^verbatim>\<open>POST /api/attendance/scan\<close>; an absent barcode is the empty string.\<close>

definition post_attendance_scan ::
  "faults \<Rightarrow> clock \<Rightarrow> string \<Rightarrow> database \<Rightarrow> database \<times> scan_response" where
  "post_attendance_scan flt clk barcode db =
     (if barcode = [] then (db, BarcodeRequired)
      else case getMemberByBarcode flt barcode db of
        Inl err \<Rightarrow> (db, DatabaseError)
      | Inr None \<Rightarrow> (db, MemberNotFound)
      | Inr (Some member) \<Rightarrow>
         (case getLastScanForMember flt (m_id member) db of
            Inl err \<Rightarrow> (db, DatabaseError)
          | Inr lastScan \<Rightarrow>
             (let isCheckin = (case lastScan of None \<Rightarrow> True | Some r \<Rightarrow> \<not> is_checkin r)
              in if isCheckin then
                   (case isWithinMeetingSchedule flt (at_isWithin clk) db of
                      Inl err \<Rightarrow> (db, ScheduleCheckError)
                    | Inr None \<Rightarrow>
                       (case getNextMeetingSession flt (at_getNext clk) db of
                          Inl err \<Rightarrow> (db, DatabaseError)
                        | Inr nextSession \<Rightarrow>
                            (db, CheckInNotAllowed (map_option next_hint nextSession)))
                    | Inr (Some activeSession) \<Rightarrow>
                        recordAttendanceWithSession flt clk member isCheckin
                          (Some activeSession) db)
                 else recordAttendanceWithSession flt clk member isCheckin None db)))"

subsection \<open>Replacing the schedule list\<close>

record schedule_input =
  dayOfWeek :: int
  sessionNumber :: int
  startTime :: string
  endTime :: string
  sessionName :: "string option"

datatype put_response =
    CurrentSchedulesError
  | NoChangesNeeded
  | SchedulesUpdated
  | SomeSchedulesFailed

definition delete_step :: "faults \<Rightarrow> database \<times> nat \<Rightarrow> meeting_schedule \<Rightarrow> database \<times> nat" where
  "delete_step flt st schedule =
     (case st of (db, errors) \<Rightarrow>
        (case deleteMeetingSchedule
                (flt (DeleteMeetingSchedule (day_of_week schedule) (session_number schedule)))
                (day_of_week schedule) (session_number schedule) db of
           Inl err \<Rightarrow> (db, errors + 1)
         | Inr db' \<Rightarrow> (db', errors)))"

definition update_step :: "faults \<Rightarrow> database \<times> nat \<Rightarrow> schedule_input \<Rightarrow> database \<times> nat" where
  "update_step flt st schedule =
     (case st of (db, errors) \<Rightarrow>
        (case updateMeetingSchedule
                (flt (UpdateMeetingSchedule (dayOfWeek schedule) (sessionNumber schedule)))
                (dayOfWeek schedule) (sessionNumber schedule) (startTime schedule)
                (endTime schedule) (sessionName schedule) db of
           Inl err \<Rightarrow> (db, errors + 1)
         | Inr db' \<Rightarrow> (db', errors)))"

text \<open>
  \<^verbatim>\<open>PUT /api/meeting-schedules\<close> with an array body. The database runs the statements in
  the order the handler issues them: the soft deletes, then the upserts. The handler
  answers as soon as it has called \<^verbatim>\<open>initializeMeetingScheduler\<close>, whose loop runs later
  in the callback of its read: the answer does not depend on the outcome of the rearm.
\<close>

definition put_meeting_schedules ::
  "faults \<Rightarrow> schedule_input list \<Rightarrow> database \<times> schedulers
     \<Rightarrow> (database \<times> schedulers) \<times> put_response" where
  "put_meeting_schedules flt schedules st =
     (case st of (db, meetingSchedulers) \<Rightarrow>
        (case getMeetingSchedules (flt GetMeetingSchedules) db of
           Inl err \<Rightarrow> ((db, meetingSchedulers), CurrentSchedulesError)
         | Inr currentSchedules \<Rightarrow>
            (let newScheduleKeys =
                   set (map (\<lambda>s. schedulerId (dayOfWeek s) (sessionNumber s)) schedules);
                 schedulesToDelete =
                   filter (\<lambda>current. schedulerId (day_of_week current) (session_number current)
                                        \<notin> newScheduleKeys) currentSchedules;
                 totalOperations = length schedules + length schedulesToDelete
             in if totalOperations = 0
                then ((db, fst (initializeMeetingScheduler flt db meetingSchedulers)),
                      NoChangesNeeded)
                else (case foldl (update_step flt)
                             (foldl (delete_step flt) (db, 0) schedulesToDelete) schedules of
                        (db', errors) \<Rightarrow>
                          if errors = 0
                          then ((db', fst (initializeMeetingScheduler flt db' meetingSchedulers)),
                                SchedulesUpdated)
                          else ((db', meetingSchedulers), SomeSchedulesFailed)))))"

section \<open>Vocabulary of the specification and example data\<close>

text \<open>A schedule row whose two times are well-formed \<^verbatim>\<open>HH:MM\<close> texts.\<close>

definition wf_schedule :: "meeting_schedule \<Rightarrow> bool" where
  "wf_schedule s = (wf_time (start_time s) \<and> wf_time (end_time s))"

text \<open>The identity of a session: its day of the week and its session number.\<close>

definition schedule_key :: "meeting_schedule \<Rightarrow> int \<times> int" where
  "schedule_key s = (day_of_week s, session_number s)"

text \<open>
  The specification's reading of "now is inside session \<open>s\<close>": the session is active, on
  today's weekday, and now's minute of the day lies between the start and the end minute,
  both included.
\<close>

definition spec_in_session :: "js_date \<Rightarrow> meeting_schedule \<Rightarrow> bool" where
  "spec_in_session now s =
     (is_active s \<and> day_of_week s = getDay now \<and>
      (case minute_of_day (start_time s) of
         None \<Rightarrow> False
       | Some a \<Rightarrow>
          (case minute_of_day (end_time s) of
             None \<Rightarrow> False
           | Some b \<Rightarrow> int a \<le> minutes_from_midnight now \<and> minutes_from_midnight now \<le> int b)))"

text \<open>The first of the default sessions: Monday, 08:00 to 12:00.\<close>

definition monday_morning :: meeting_schedule where
  "monday_morning = \<lparr>day_of_week = 1, session_number = 1, start_time = ''08:00'',
     end_time = ''12:00'', is_active = True, session_name = None\<rparr>"

definition alice :: member where
  "alice = \<lparr>m_id = 1, m_name = ''Alice'', m_barcode = ''A001''\<rparr>"

definition monday_only :: database where
  "monday_only = \<lparr>members = [alice], attendance_records = [], attendance_seq = 0,
     meeting_schedules = [monday_morning]\<rparr>"

definition monday_at :: "nat \<Rightarrow> nat \<Rightarrow> js_date" where
  "monday_at h m = \<lparr>getDay = 1, getHours = h, getMinutes = m\<rparr>"

text \<open>A late session on Friday and a schedule table holding only it.\<close>

definition friday_late :: meeting_schedule where
  "friday_late = \<lparr>day_of_week = 5, session_number = 1, start_time = ''20:00'',
     end_time = ''23:50'', is_active = True, session_name = None\<rparr>"

definition friday_only :: database where
  "friday_only = \<lparr>members = [alice], attendance_records = [], attendance_seq = 0,
     meeting_schedules = [friday_late]\<rparr>"

text \<open>The run in which the scheduler's read of the schedule table fails.\<close>

definition rearm_read_fails :: faults where
  "rearm_read_fails = (\<lambda>c. c = RearmGetMeetingSchedules)"

text \<open>The trigger table armed for the Monday-only schedule.\<close>

definition armed_monday :: schedulers where
  "armed_monday = fst (initializeMeetingScheduler no_faults monday_only Map.empty)"

text \<open>The record of its member with the highest id.\<close>

definition highest_id :: "attendance_record list \<Rightarrow> attendance_record \<Rightarrow> bool" where
  "highest_id recs r =
     (r \<in> set recs \<and> (\<forall>r'\<in>set recs. member_id r' = member_id r \<longrightarrow> ar_id r' \<le> ar_id r))"

text \<open>
  The specification's "most recent record" of a member: the one with the latest
  \<^verbatim>\<open>scan_time\<close>, and among records of equal \<^verbatim>\<open>scan_time\<close> the one with the highest id.
  The specification's checked-in members are the members whose most recent record is a
  check-in.
\<close>

definition spec_most_recent :: "attendance_record list \<Rightarrow> attendance_record \<Rightarrow> bool" where
  "spec_most_recent recs r =
     (r \<in> set recs \<and>
      (\<forall>r'\<in>set recs. member_id r' = member_id r \<longrightarrow>
         scan_time r' < scan_time r \<or> (scan_time r' = scan_time r \<and> ar_id r' \<le> ar_id r)))"

definition spec_checked_in :: "database \<Rightarrow> int set" where
  "spec_checked_in db =
     m_id ` {m \<in> set (members db).
              \<exists>r\<in>set (attendance_records db).
                 member_id r = m_id m \<and> spec_most_recent (attendance_records db) r \<and> is_checkin r}"

text \<open>
  Records with larger ids do not have earlier timestamps: what the inserts of the code
  produce as long as the database clock does not go backwards.
\<close>

definition time_follows_id :: "attendance_record list \<Rightarrow> bool" where
  "time_follows_id recs =
     (\<forall>r\<in>set recs. \<forall>r'\<in>set recs. ar_id r \<le> ar_id r' \<longrightarrow> scan_time r \<le> scan_time r')"

text \<open>Alice, checked in on Monday morning.\<close>

definition alice_checked_in :: database where
  "alice_checked_in = \<lparr>members = [alice],
     attendance_records =
       [\<lparr>ar_id = 1, member_id = 1, scan_time = ''2024-03-04 09:00:00'', is_checkin = True,
         is_auto_logout = False, needs_review = False\<rparr>],
     attendance_seq = 1, meeting_schedules = [monday_morning]\<rparr>"

text \<open>
  A store in which the database clock was set back between two scans of Alice: the
  check-out with the higher id carries the earlier timestamp.
\<close>

definition clock_set_back :: database where
  "clock_set_back = \<lparr>members = [alice],
     attendance_records =
       [\<lparr>ar_id = 1, member_id = 1, scan_time = ''2024-03-04 09:30:00'', is_checkin = True,
         is_auto_logout = False, needs_review = False\<rparr>,
        \<lparr>ar_id = 2, member_id = 1, scan_time = ''2024-03-04 09:00:00'', is_checkin = False,
         is_auto_logout = False, needs_review = False\<rparr>],
     attendance_seq = 2, meeting_schedules = [monday_morning]\<rparr>"

text \<open>A request during which every clock reading is the same instant.\<close>

definition clock_at :: "js_date \<Rightarrow> string \<Rightarrow> clock" where
  "clock_at now ts = \<lparr>at_isWithin = now, at_getNext = now, at_record = now, current_timestamp = ts\<rparr>"

definition sunday_at :: "nat \<Rightarrow> nat \<Rightarrow> js_date" where
  "sunday_at h m = \<lparr>getDay = 0, getHours = h, getMinutes = m\<rparr>"

text \<open>Alice and Bob both checked in, and the run in which the write for Alice fails.\<close>

definition bob :: member where
  "bob = \<lparr>m_id = 2, m_name = ''Bob'', m_barcode = ''B002''\<rparr>"

definition two_checked_in :: database where
  "two_checked_in = \<lparr>members = [alice, bob],
     attendance_records =
       [\<lparr>ar_id = 1, member_id = 2, scan_time = ''2024-03-04 09:00:00'', is_checkin = True,
         is_auto_logout = False, needs_review = False\<rparr>,
        \<lparr>ar_id = 2, member_id = 1, scan_time = ''2024-03-04 09:05:00'', is_checkin = True,
         is_auto_logout = False, needs_review = False\<rparr>],
     attendance_seq = 2, meeting_schedules = [monday_morning]\<rparr>"

definition alice_write_fails :: faults where
  "alice_write_fails = (\<lambda>c. c = RecordAutoLogout 1)"

text \<open>The table has a row with key \<open>k\<close>, and every row with that key is active.\<close>

definition active_at_key :: "int \<times> int \<Rightarrow> database \<Rightarrow> bool" where
  "active_at_key k db =
     ((\<exists>r\<in>set (meeting_schedules db). schedule_key r = k)
      \<and> (\<forall>r\<in>set (meeting_schedules db). schedule_key r = k \<longrightarrow> is_active r))"

text \<open>The Monday session soft-deleted, and a replacement list that names it again.\<close>

definition monday_deleted :: database where
  "monday_deleted = \<lparr>members = [alice], attendance_records = [], attendance_seq = 0,
     meeting_schedules = [monday_morning\<lparr>is_active := False\<rparr>]\<rparr>"

definition monday_again :: schedule_input where
  "monday_again = \<lparr>dayOfWeek = 1, sessionNumber = 1, startTime = ''09:00'',
     endTime = ''11:00'', sessionName = None\<rparr>"

text \<open>
  A session whose trigger the cron library accepts whatever its minute of the day: the end
  time is a well-formed \<^verbatim>\<open>HH:MM\<close> text and the day of the week is one of the library's
  \<^verbatim>\<open>0\<close> to \<^verbatim>\<open>7\<close>.
\<close>

definition schedulable :: "meeting_schedule \<Rightarrow> bool" where
  "schedulable s = (wf_time (end_time s) \<and> 0 \<le> day_of_week s \<and> day_of_week s \<le> 7)"

text \<open>
  The key of an entry of a replacement list, and a stored row that holds an entry's
  fields and is active.
\<close>

definition input_key :: "schedule_input \<Rightarrow> int \<times> int" where
  "input_key x = (dayOfWeek x, sessionNumber x)"

definition stored_from :: "schedule_input \<Rightarrow> meeting_schedule \<Rightarrow> bool" where
  "stored_from x r =
     (day_of_week r = dayOfWeek x \<and> session_number r = sessionNumber x
      \<and> start_time r = startTime x \<and> end_time r = endTime x \<and> is_active r)"

text \<open>
  The Monday session stored with its start time written without the leading zero, and a
  table holding only it.
\<close>

definition unpadded_morning :: meeting_schedule where
  "unpadded_morning = \<lparr>day_of_week = 1, session_number = 1, start_time = ''8:00'',
     end_time = ''12:00'', is_active = True, session_name = None\<rparr>"

definition unpadded_only :: database where
  "unpadded_only = \<lparr>members = [alice], attendance_records = [], attendance_seq = 0,
     meeting_schedules = [unpadded_morning]\<rparr>"

text \<open>
  Three scans of Alice's badge within one second of a Monday morning: the clock of the
  requests and the records they leave, all stamped with the same second.
\<close>

definition nine_sharp :: clock where
  "nine_sharp = clock_at (monday_at 9 0) ''2024-03-04 09:00:00''"

definition first_in :: attendance_record where
  "first_in = \<lparr>ar_id = 1, member_id = 1, scan_time = ''2024-03-04 09:00:00'',
     is_checkin = True, is_auto_logout = False, needs_review = False\<rparr>"

definition then_out :: attendance_record where
  "then_out = \<lparr>ar_id = 2, member_id = 1, scan_time = ''2024-03-04 09:00:00'',
     is_checkin = False, is_auto_logout = False, needs_review = False\<rparr>"

definition out_again :: attendance_record where
  "out_again = \<lparr>ar_id = 3, member_id = 1, scan_time = ''2024-03-04 09:00:00'',
     is_checkin = False, is_auto_logout = False, needs_review = False\<rparr>"

definition alice_scanned :: "attendance_record list \<Rightarrow> database" where
  "alice_scanned recs = \<lparr>members = [alice], attendance_records = recs,
     attendance_seq = int (length recs), meeting_schedules = [monday_morning]\<rparr>"

text \<open>
  A schedule table whose Monday session was stored with the end time \<^verbatim>\<open>12\<close>, without
  minutes, followed by a well-formed Tuesday session.
\<close>

definition monday_no_minutes :: meeting_schedule where
  "monday_no_minutes = \<lparr>day_of_week = 1, session_number = 1, start_time = ''08:00'',
     end_time = ''12'', is_active = True, session_name = None\<rparr>"

definition tuesday_morning :: meeting_schedule where
  "tuesday_morning = \<lparr>day_of_week = 2, session_number = 1, start_time = ''08:00'',
     end_time = ''12:00'', is_active = True, session_name = None\<rparr>"

definition malformed_first :: database where
  "malformed_first = \<lparr>members = [alice], attendance_records = [], attendance_seq = 0,
     meeting_schedules = [monday_no_minutes, tuesday_morning]\<rparr>"

text \<open>A replacement entry for the Monday session whose end time is not a time.\<close>

definition monday_banana :: schedule_input where
  "monday_banana = \<lparr>dayOfWeek = 1, sessionNumber = 1, startTime = ''09:00'',
     endTime = ''banana'', sessionName = None\<rparr>"

section \<open>Times of day\<close>

lemma of_char_digit_char: "d < 10 \<Longrightarrow> of_char (digit_char d) = (48 + d :: nat)"
proof -
  assume "d < 10"
  then have "d \<in> {0,1,2,3,4,5,6,7,8,9}" by auto
  then show ?thesis by (auto simp: digit_char_def)
qed

lemma is_digit_iff: "is_digit c \<longleftrightarrow> 48 \<le> (of_char c :: nat) \<and> (of_char c :: nat) \<le> 57"
  by (simp add: is_digit_def less_eq_char_def)

lemma is_digit_digit_char: "d < 10 \<Longrightarrow> is_digit (digit_char d)"
  by (simp add: is_digit_iff of_char_digit_char)

lemma digit_val_digit_char: "d < 10 \<Longrightarrow> digit_val (digit_char d) = int d"
proof -
  assume d: "d < 10"
  have "(of_char (digit_char d) :: int) = int (of_char (digit_char d) :: nat)"
    by (simp add: of_char_def)
  then show ?thesis using d by (simp add: digit_val_def of_char_digit_char)
qed

lemma padStart2_string_of_nat:
  "n < 100 \<Longrightarrow> padStart2 (string_of_nat n) = [digit_char (n div 10), digit_char (n mod 10)]"
proof (cases "n < 10")
  case True
  then show ?thesis
    by (simp add: padStart2_def string_of_nat.simps [of n] digit_char_def)
next
  case False
  assume "n < 100"
  then have "n div 10 < 10" by simp
  then show ?thesis using False
    by (simp add: padStart2_def string_of_nat.simps [of n] string_of_nat.simps [of "n div 10"])
qed

lemma hhmm_chars:
  "h < 24 \<Longrightarrow> m < 60 \<Longrightarrow>
   hhmm h m = [digit_char (h div 10), digit_char (h mod 10), CHR '':'',
               digit_char (m div 10), digit_char (m mod 10)]"
  by (simp add: hhmm_def padStart2_string_of_nat)

lemma minute_of_day_hhmm:
  assumes "h < 24" "m < 60"
  shows "minute_of_day (hhmm h m) = Some (60 * h + m)"
proof -
  have d: "h div 10 < 10" "h mod 10 < 10" "m div 10 < 10" "m mod 10 < 10"
    using assms by auto
  have eq: "10 * int (h div 10) + int (h mod 10) = int h" "10 * int (m div 10) + int (m mod 10) = int m"
    by (simp_all add: zdiv_int zmod_int)
  show ?thesis
    using assms d
    by (simp add: hhmm_chars minute_of_day_def is_digit_digit_char digit_val_digit_char eq nat_add_distrib nat_mult_distrib)
qed

lemma char_eq_iff_of_char: "(c = d) \<longleftrightarrow> ((of_char c :: nat) = of_char d)"
  by (metis char_of_char)

lemma digit_val_nat: "digit_val c = int (of_char c :: nat) - 48"
  by (simp add: digit_val_def of_nat_of_char)

lemma minute_of_dayE:
  assumes "minute_of_day t = Some k"
  obtains a b d e where "t = [a, b, CHR '':'', d, e]"
    "is_digit a" "is_digit b" "is_digit d" "is_digit e"
    "10 * digit_val a + digit_val b < 24" "10 * digit_val d + digit_val e < 60"
    "int k = 60 * (10 * digit_val a + digit_val b) + (10 * digit_val d + digit_val e)"
proof -
  from assms obtain a b c d e where t: "t = [a, b, c, d, e]"
    by (auto simp: minute_of_day_def split: list.splits)
  from assms t have c: "c = CHR '':''" and dg: "is_digit a" "is_digit b" "is_digit d" "is_digit e"
    and r: "10 * digit_val a + digit_val b < 24" "10 * digit_val d + digit_val e < 60"
    and k: "k = nat (60 * (10 * digit_val a + digit_val b) + (10 * digit_val d + digit_val e))"
    by (auto simp: minute_of_day_def split: if_splits)
  have "0 \<le> digit_val a" "0 \<le> digit_val b" "0 \<le> digit_val d" "0 \<le> digit_val e"
    using dg by (auto simp: is_digit_iff digit_val_nat)
  then have "int k = 60 * (10 * digit_val a + digit_val b) + (10 * digit_val d + digit_val e)"
    using k by simp
  with t c dg r that show thesis by blast
qed

lemma time_le_iff:
  assumes "minute_of_day s = Some j" "minute_of_day t = Some k"
  shows "s \<le> t \<longleftrightarrow> j \<le> k"
proof -
  from assms(1) obtain a b d e where s: "s = [a, b, CHR '':'', d, e]"
    and sd: "is_digit a" "is_digit b" "is_digit d" "is_digit e"
    and sr: "10 * digit_val a + digit_val b < 24" "10 * digit_val d + digit_val e < 60"
    and sj: "int j = 60 * (10 * digit_val a + digit_val b) + (10 * digit_val d + digit_val e)"
    by (rule minute_of_dayE)
  from assms(2) obtain a' b' d' e' where t: "t = [a', b', CHR '':'', d', e']"
    and td: "is_digit a'" "is_digit b'" "is_digit d'" "is_digit e'"
    and tr: "10 * digit_val a' + digit_val b' < 24" "10 * digit_val d' + digit_val e' < 60"
    and tk: "int k = 60 * (10 * digit_val a' + digit_val b') + (10 * digit_val d' + digit_val e')"
    by (rule minute_of_dayE)
  have "s \<le> t \<longleftrightarrow> int j \<le> int k"
    unfolding s t sj tk
    using sd td sr tr
    unfolding less_char_def less_eq_char_def char_eq_iff_of_char is_digit_iff digit_val_nat
      Cons_le_Cons Nil_le_Cons
    by (simp del: of_char_eq_iff) linarith
  then show ?thesis by simp
qed

lemma time_less_iff:
  assumes "minute_of_day s = Some j" "minute_of_day t = Some k"
  shows "s < t \<longleftrightarrow> j < k"
  using time_le_iff [OF assms(2) assms(1)] by (simp add: not_le [symmetric])

lemma Number_two_digits:
  "is_digit a \<Longrightarrow> is_digit b \<Longrightarrow> Number [a, b] = Some (10 * digit_val a + digit_val b)"
  by (simp add: Number_def)

lemma split_hour_minute_wf:
  assumes "minute_of_day t = Some k"
  shows "split_hour_minute t = (Some (int (k div 60)), Some (int (k mod 60)))"
proof -
  from assms obtain a b d e where t: "t = [a, b, CHR '':'', d, e]"
    and dg: "is_digit a" "is_digit b" "is_digit d" "is_digit e"
    and r: "10 * digit_val a + digit_val b < 24" "10 * digit_val d + digit_val e < 60"
    and k: "int k = 60 * (10 * digit_val a + digit_val b) + (10 * digit_val d + digit_val e)"
    by (rule minute_of_dayE)
  have nc: "a \<noteq> CHR '':''" "b \<noteq> CHR '':''" "d \<noteq> CHR '':''" "e \<noteq> CHR '':''"
    using dg by (auto simp: is_digit_iff)
  have pos: "0 \<le> 10 * digit_val d + digit_val e"
    using dg by (auto simp: is_digit_iff digit_val_nat)
  define H M where "H = 10 * digit_val a + digit_val b" and "M = 10 * digit_val d + digit_val e"
  have "int k = 60 * H + M" "0 \<le> M" "M < 60"
    using k r pos by (simp_all add: H_def M_def)
  then have "int k div 60 = H" "int k mod 60 = M"
    by simp_all
  then have "int k div 60 = 10 * digit_val a + digit_val b" "int k mod 60 = 10 * digit_val d + digit_val e"
    by (simp_all add: H_def M_def)
  then show ?thesis
    using nc dg by (simp add: t split_hour_minute_def Number_two_digits zdiv_int zmod_int)
qed

lemma minute_of_day_currentTime:
  "valid_date now \<Longrightarrow> minute_of_day (currentTime now) = Some (getHours now * 60 + getMinutes now)"
  by (simp add: valid_date_def currentTime_def minute_of_day_hhmm mult.commute)

lemma within_window_spec:
  assumes "valid_date now" "wf_schedule s"
  shows "within_window now s = spec_in_session now s"
proof -
  from assms(2) obtain a b where a: "minute_of_day (start_time s) = Some a"
    and b: "minute_of_day (end_time s) = Some b"
    by (auto simp: wf_schedule_def wf_time_def)
  note n = minute_of_day_currentTime [OF assms(1)]
  show ?thesis
    by (auto simp: within_window_def spec_in_session_def a b minutes_from_midnight_def
        time_le_iff [OF a n] time_le_iff [OF n b])
qed

lemma first_row_None: "first_row xs = None \<longleftrightarrow> xs = []"
  by (cases xs) (simp_all add: first_row_def)

lemma first_row_Some: "first_row xs = Some x \<Longrightarrow> x \<in> set xs"
  by (cases xs) (simp_all add: first_row_def)

lemma first_row_filter_None: "first_row (filter P xs) = None \<longleftrightarrow> (\<forall>x\<in>set xs. \<not> P x)"
  by (simp add: first_row_None filter_empty_conv)

lemma first_row_filter_Some: "first_row (filter P xs) = Some x \<Longrightarrow> x \<in> set xs \<and> P x"
  using first_row_Some [of "filter P xs" x] by simp

lemma wf_monday_morning: "wf_schedule monday_morning"
  by (simp add: wf_schedule_def wf_time_def minute_of_day_def monday_morning_def is_digit_def digit_val_def)

lemma sort_key_Nil_iff: "sort_key f xs = [] \<longleftrightarrow> xs = []"
  using length_sort [of f xs] by (simp only: length_0_conv [symmetric])

lemma first_row_sort_key:
  assumes "first_row (sort_key f xs) = Some x"
  shows "x \<in> set xs \<and> (\<forall>y\<in>set xs. f x \<le> f y)"
proof -
  from assms obtain ys where ys: "sort_key f xs = x # ys"
    by (cases "sort_key f xs") (simp_all add: first_row_def)
  have "set (sort_key f xs) = set xs" by simp
  with ys have mem: "x \<in> set xs" and sub: "set ys \<subseteq> set xs" and all: "set xs = insert x (set ys)"
    by auto
  have "sorted (map f (sort_key f xs))" by (rule sorted_sort_key)
  with ys have "\<forall>y\<in>set ys. f x \<le> f y" by simp
  with all mem show ?thesis by auto
qed

lemma sorted_key_le_last:
  assumes "sorted (map f xs)" "x \<in> set xs"
  shows "f x \<le> f (last xs)"
proof -
  from assms(2) have ne: "xs \<noteq> []" by auto
  from assms(2) obtain i where i: "i < length xs" "xs ! i = x"
    by (auto simp: in_set_conv_nth)
  have "map f xs ! i \<le> map f xs ! (length xs - 1)"
    using assms(1) i(1) by (intro sorted_nth_mono) simp_all
  with i ne show ?thesis by (simp add: last_conv_nth)
qed

lemma last_filter_last: "xs \<noteq> [] \<Longrightarrow> P (last xs) \<Longrightarrow> last (filter P xs) = last xs"
  by (induction xs rule: rev_induct) simp_all

lemma first_row_sort_key_desc:
  assumes "first_row (sort_key_desc f xs) = Some x"
  shows "x \<in> set xs \<and> (\<forall>y\<in>set xs. f y \<le> f x)"
proof -
  let ?zs = "sort_key f (rev xs)"
  from assms have fr: "first_row (rev ?zs) = Some x" by (simp add: sort_key_desc_def)
  then have ne: "?zs \<noteq> []" by (auto simp: first_row_def)
  with fr have x: "x = last ?zs"
    by (cases "rev ?zs") (simp_all add: first_row_def last_rev [symmetric] del: last_rev)
  from ne have "last ?zs \<in> set ?zs" by (rule last_in_set)
  with x have mem: "x \<in> set xs" by simp
  have "f y \<le> f x" if "y \<in> set xs" for y
  proof -
    from that have "y \<in> set ?zs" by simp
    moreover have "sorted (map f ?zs)" by (rule sorted_sort_key)
    ultimately show ?thesis unfolding x by (rule sorted_key_le_last [rotated])
  qed
  with mem show ?thesis by blast
qed

lemma first_row_sort_key_desc_tie:
  assumes "first_row (sort_key_desc f xs) = Some x" and "sorted (map g xs)"
    and "y \<in> set xs" and "f y = f x"
  shows "g x \<le> g y"
proof -
  let ?zs = "sort_key f (rev xs)"
  let ?P = "\<lambda>y. f y = f x"
  from assms(1) have fr: "first_row (rev ?zs) = Some x" by (simp add: sort_key_desc_def)
  then have ne: "?zs \<noteq> []" by (auto simp: first_row_def)
  with fr have x: "x = last ?zs"
    by (cases "rev ?zs") (simp_all add: first_row_def last_rev [symmetric] del: last_rev)
  have "?P (last ?zs)" using x by simp
  with ne have "last (filter ?P ?zs) = last ?zs" by (rule last_filter_last)
  moreover have "filter ?P ?zs = filter ?P (rev xs)" by (rule sort_key_stable)
  ultimately have l: "last (rev (filter ?P xs)) = x" using x by (simp add: rev_filter)
  have iny: "y \<in> set (filter ?P xs)" using assms(3,4) by simp
  have ne': "filter ?P xs \<noteq> []"
  proof
    assume "filter ?P xs = []"
    with iny show False by (simp only: set_simps empty_iff)
  qed
  with l have h: "hd (filter ?P xs) = x" by (simp add: last_rev)
  from ne' h obtain rest where c: "filter ?P xs = x # rest" by (cases "filter ?P xs") auto
  have "sorted (map g (filter ?P xs))" using assms(2) by (rule sorted_filter)
  with c have "\<forall>z\<in>set rest. g x \<le> g z" by simp
  moreover have "y = x \<or> y \<in> set rest" using iny c by simp
  ultimately show ?thesis by auto
qed

section \<open>Rendering numbers and scheduler keys\<close>

lemma digit_char_inj:
  assumes "a < 10" "b < 10" "digit_char a = digit_char b"
  shows "a = b"
proof -
  have "(of_char (digit_char a) :: nat) = of_char (digit_char b)"
    by (simp only: assms(3))
  then have "48 + a = 48 + b"
    by (simp only: of_char_digit_char [OF assms(1)] of_char_digit_char [OF assms(2)])
  then show ?thesis by simp
qed

lemma string_of_nat_nonempty: "string_of_nat n \<noteq> []"
  by (subst string_of_nat.simps) simp

lemma string_of_nat_digits: "c \<in> set (string_of_nat n) \<Longrightarrow> is_digit c"
proof (induction n rule: string_of_nat.induct)
  case (1 n)
  show ?case
  proof (cases "n < 10")
    case True
    with "1.prems" show ?thesis
      by (simp add: string_of_nat.simps [of n] is_digit_digit_char)
  next
    case False
    with "1.prems" "1.IH" show ?thesis
      by (auto simp: string_of_nat.simps [of n] is_digit_digit_char)
  qed
qed

lemma string_of_nat_inj: "string_of_nat n = string_of_nat m \<Longrightarrow> n = m"
proof (induction n arbitrary: m rule: string_of_nat.induct)
  case (1 n)
  show ?case
  proof (cases "n < 10")
    case n: True
    show ?thesis
    proof (cases "m < 10")
      case True
      with n "1.prems" show ?thesis
        by (simp add: string_of_nat.simps [of n] string_of_nat.simps [of m] digit_char_inj)
    next
      case False
      with n "1.prems" string_of_nat_nonempty [of "m div 10"] show ?thesis
        by (simp add: string_of_nat.simps [of n] string_of_nat.simps [of m])
    qed
  next
    case n: False
    show ?thesis
    proof (cases "m < 10")
      case True
      with n "1.prems" string_of_nat_nonempty [of "n div 10"] show ?thesis
        by (simp add: string_of_nat.simps [of n] string_of_nat.simps [of m])
    next
      case False
      with n "1.prems" have eq: "string_of_nat (n div 10) = string_of_nat (m div 10)"
        and d: "digit_char (n mod 10) = digit_char (m mod 10)"
        by (simp_all add: string_of_nat.simps [of n] string_of_nat.simps [of m])
      have "n div 10 = m div 10" using "1.IH" [OF n eq] .
      moreover have "n mod 10 = m mod 10" using d by (simp add: digit_char_inj)
      ultimately show ?thesis by (metis div_mult_mod_eq)
    qed
  qed
qed

lemma minus_not_digit: "\<not> is_digit CHR ''-''"
  by (simp add: is_digit_iff)

lemma minus_notin_string_of_nat: "CHR ''-'' \<notin> set (string_of_nat n)"
  using string_of_nat_digits minus_not_digit by blast

lemma string_of_nat_hd: "\<exists>c cs. string_of_nat n = c # cs \<and> c \<noteq> CHR ''-''"
proof (cases "string_of_nat n")
  case Nil
  then show ?thesis using string_of_nat_nonempty by simp
next
  case (Cons c cs)
  then have "c \<in> set (string_of_nat n)" by simp
  with minus_notin_string_of_nat [of n] Cons show ?thesis by auto
qed

lemma append_sep_eq:
  "c \<notin> set xs \<Longrightarrow> c \<notin> set xs' \<Longrightarrow> xs @ c # ys = xs' @ c # ys' \<Longrightarrow> xs = xs' \<and> ys = ys'"
proof (induction xs arbitrary: xs')
  case Nil
  then show ?case by (cases xs') auto
next
  case (Cons a as)
  then show ?case by (cases xs') auto
qed

lemma schedulerId_inj:
  assumes "schedulerId d n = schedulerId d' n'"
  shows "d = d' \<and> n = n'"
proof -
  have split: "x = x' \<and> s = s'"
    if "string_of_nat x @ CHR ''-'' # s = string_of_nat x' @ CHR ''-'' # s'" for x x' s s'
    using append_sep_eq [OF minus_notin_string_of_nat minus_notin_string_of_nat that]
    by (simp add: string_of_nat_inj)
  have nat_eq: "a = b" if "nat a = nat b" "0 \<le> a" "0 \<le> b" for a b :: int
    using that by simp
  have sinj: "a = b" if "string_of_int a = string_of_int b" for a b
  proof -
    obtain c cs where c: "string_of_nat (nat b) = c # cs" "c \<noteq> CHR ''-''"
      using string_of_nat_hd by blast
    obtain c' cs' where c': "string_of_nat (nat a) = c' # cs'" "c' \<noteq> CHR ''-''"
      using string_of_nat_hd by blast
    consider "a < 0" "b < 0" | "a < 0" "0 \<le> b" | "0 \<le> a" "b < 0" | "0 \<le> a" "0 \<le> b"
      by linarith
    then show ?thesis
    proof cases
      case 1
      with that have "nat (- a) = nat (- b)"
        by (simp add: string_of_int_def string_of_nat_inj)
      with 1 show ?thesis by arith
    next
      case 2
      with that c show ?thesis by (simp add: string_of_int_def)
    next
      case 3
      with that c' show ?thesis by (simp add: string_of_int_def)
    next
      case 4
      with that have "nat a = nat b"
        by (simp add: string_of_int_def string_of_nat_inj)
      with 4 show ?thesis by arith
    qed
  qed
  obtain c cs where c: "string_of_nat (nat d) = c # cs" "c \<noteq> CHR ''-''"
    using string_of_nat_hd by blast
  obtain c' cs' where c': "string_of_nat (nat d') = c' # cs'" "c' \<noteq> CHR ''-''"
    using string_of_nat_hd by blast
  have "d = d' \<and> string_of_int n = string_of_int n'"
  proof (cases "d < 0")
    case dn: True
    show ?thesis
    proof (cases "d' < 0")
      case True
      with dn assms have "nat (- d) = nat (- d') \<and> string_of_int n = string_of_int n'"
        by (intro split) (simp add: schedulerId_def string_of_int_def)
      with dn True show ?thesis by arith
    next
      case False
      with dn assms c' show ?thesis
        by (simp add: schedulerId_def string_of_int_def)
    qed
  next
    case dp: False
    show ?thesis
    proof (cases "d' < 0")
      case True
      with dp assms c show ?thesis
        by (simp add: schedulerId_def string_of_int_def)
    next
      case False
      with dp assms have "nat d = nat d' \<and> string_of_int n = string_of_int n'"
        by (intro split) (simp add: schedulerId_def string_of_int_def)
      with dp False show ?thesis by arith
    qed
  qed
  then show ?thesis using sinj by blast
qed

section \<open>The scheduler\<close>

lemma minute_of_day_less: "minute_of_day t = Some e \<Longrightarrow> e < 1440"
proof -
  assume "minute_of_day t = Some e"
  then obtain a b d x where
    r: "10 * digit_val a + digit_val b < 24" "10 * digit_val d + digit_val x < 60"
    and k: "int e = 60 * (10 * digit_val a + digit_val b) + (10 * digit_val d + digit_val x)"
    by (rule minute_of_dayE)
  define H M where "H = 10 * digit_val a + digit_val b" and "M = 10 * digit_val d + digit_val x"
  have "int e = 60 * H + M" "H < 24" "M < 60"
    using r k by (simp_all add: H_def M_def)
  then have "int e < 1440" by arith
  then show ?thesis by simp
qed

lemma divmod60: "(x::nat) = 60 * q + r \<Longrightarrow> r < 60 \<Longrightarrow> x div 60 = q \<and> x mod 60 = r"
  by simp

lemma plus15_same_hour:
  assumes "(e::nat) mod 60 + 15 < 60"
  shows "(e + 15) div 60 = e div 60 \<and> (e + 15) mod 60 = e mod 60 + 15"
proof (rule divmod60)
  show "e + 15 = 60 * (e div 60) + (e mod 60 + 15)" by simp
  show "e mod 60 + 15 < 60" by (rule assms)
qed

lemma plus15_next_hour:
  assumes "\<not> (e::nat) mod 60 + 15 < 60"
  shows "(e + 15) div 60 = e div 60 + 1 \<and> (e + 15) mod 60 = e mod 60 + 15 - 60"
proof -
  define q r where "q = e div 60" and "r = e mod 60"
  have e: "e = 60 * q + r" and r: "r < 60" "\<not> r + 15 < 60"
    using assms by (simp_all add: q_def r_def)
  have "(e + 15) div 60 = q + 1 \<and> (e + 15) mod 60 = r + 15 - 60"
  proof (rule divmod60)
    show "r + 15 - 60 < 60" using r by linarith
    show "e + 15 = 60 * (q + 1) + (r + 15 - 60)" using e r by (simp add: algebra_simps)
  qed
  then show ?thesis by (simp only: q_def r_def)
qed

lemma logout_hour_minute_wf:
  assumes "minute_of_day t = Some e"
  shows "logout_hour_minute t =
           (Some (int ((e + 15) div 60 mod 24)), Some (int ((e + 15) mod 60)))"
proof -
  have lt: "e < 1440" using assms by (rule minute_of_day_less)
  have sp: "split_hour_minute t = (Some (int (e div 60)), Some (int (e mod 60)))"
    using assms by (rule split_hour_minute_wf)
  have h: "e div 60 < 24" using lt by simp
  show ?thesis
  proof (cases "e mod 60 + 15 < 60")
    case True
    note dm = plus15_same_hour [OF True]
    have "int (e mod 60) + 15 < 60" using True by linarith
    with h show ?thesis
      by (simp add: logout_hour_minute_def sp js_add_def js_ge_def dm)
  next
    case False
    note dm = plus15_next_hour [OF False]
    have ge: "60 \<le> int (e mod 60) + 15" using False by linarith
    have m: "int (e mod 60 + 15 - 60) = int (e mod 60) + 15 - 60" using False by linarith
    show ?thesis
    proof (cases "e div 60 + 1 < 24")
      case True
      then have "\<not> 24 \<le> int (e div 60) + 1" by linarith
      with True ge m show ?thesis
        by (simp add: logout_hour_minute_def sp js_add_def js_ge_def dm)
    next
      case False
      with h have q: "e div 60 = 23" by linarith
      with ge m show ?thesis
        by (simp add: logout_hour_minute_def sp js_add_def js_ge_def dm)
    qed
  qed
qed

lemma cron_for_wf:
  assumes "minute_of_day (end_time s) = Some e"
  shows "cron_for s = \<lparr>cron_minute = Some (int ((e + 15) mod 60)),
                       cron_hour = Some (int ((e + 15) div 60 mod 24)),
                       cron_day_of_week = day_of_week s\<rparr>"
  by (simp add: cron_for_def logout_hour_minute_wf [OF assms])

lemma cron_accepts_wf:
  assumes "minute_of_day (end_time s) = Some e"
  shows "cron_accepts (cron_for s) \<longleftrightarrow> 0 \<le> day_of_week s \<and> day_of_week s \<le> 7"
proof -
  have "(e + 15) mod 60 < 60" "(e + 15) div 60 mod 24 < 24" by simp_all
  then have "int ((e + 15) mod 60) \<le> 59" "int ((e + 15) div 60 mod 24) \<le> 23" by linarith+
  then show ?thesis
    by (simp add: cron_for_wf [OF assms] cron_accepts_def)
qed

lemma schedulable_accepted: "schedulable s \<Longrightarrow> cron_accepts (cron_for s)"
  using cron_accepts_wf [of s] by (auto simp: schedulable_def wf_time_def)

lemma arm_each_takeWhile:
  "arm_each ms xs =
     (foldl arm ms (takeWhile (\<lambda>s. cron_accepts (cron_for s)) xs),
      \<not> list_all (\<lambda>s. cron_accepts (cron_for s)) xs)"
  by (induction xs arbitrary: ms) simp_all

lemma dom_foldl_arm:
  "dom (foldl arm m xs) = dom m \<union> (\<lambda>s. schedulerId (day_of_week s) (session_number s)) ` set xs"
  by (induction xs arbitrary: m) (auto simp: arm_def)

lemma foldl_arm_notin:
  "schedulerId d n \<notin> (\<lambda>s. schedulerId (day_of_week s) (session_number s)) ` set xs \<Longrightarrow>
   foldl arm m xs (schedulerId d n) = m (schedulerId d n)"
  by (induction xs arbitrary: m) (auto simp: arm_def)

lemma same_id_same_key:
  "schedulerId (day_of_week x) (session_number x) = schedulerId (day_of_week y) (session_number y)
   \<longleftrightarrow> schedule_key x = schedule_key y"
  using schedulerId_inj [of "day_of_week x" "session_number x" "day_of_week y" "session_number y"]
  by (auto simp: schedule_key_def)

lemma distinct_keys_eq:
  assumes "distinct (map schedule_key xs)" "x \<in> set xs" "y \<in> set xs"
    "schedule_key x = schedule_key y"
  shows "x = y"
  using assms by (metis distinct_map inj_onD)

lemma foldl_arm_distinct:
  assumes "distinct (map schedule_key xs)" "s \<in> set xs"
  shows "foldl arm m xs (schedulerId (day_of_week s) (session_number s)) = Some (cron_for s)"
  using assms
proof (induction xs arbitrary: m)
  case Nil
  then show ?case by simp
next
  case (Cons x xs)
  show ?case
  proof (cases "s = x")
    case True
    have "schedulerId (day_of_week x) (session_number x)
            \<notin> (\<lambda>s. schedulerId (day_of_week s) (session_number s)) ` set xs"
    proof
      assume "schedulerId (day_of_week x) (session_number x)
            \<in> (\<lambda>s. schedulerId (day_of_week s) (session_number s)) ` set xs"
      then obtain y where y: "y \<in> set xs" "schedule_key x = schedule_key y"
        unfolding same_id_same_key [symmetric] by blast
      with Cons.prems(1) show False by (simp add: image_iff) metis
    qed
    then show ?thesis
      using True by (simp add: foldl_arm_notin) (simp add: arm_def)
  next
    case False
    with Cons show ?thesis by simp
  qed
qed

lemma getMeetingSchedules_ok:
  "getMeetingSchedules False db = Inr rows \<Longrightarrow>
     set rows = {s \<in> set (meeting_schedules db). is_active s}"
  by (auto simp: getMeetingSchedules_def)

lemma distinct_keys_sorted:
  assumes "getMeetingSchedules False db = Inr rows"
    and "distinct (map schedule_key (filter is_active (meeting_schedules db)))"
  shows "distinct (map schedule_key rows)"
proof -
  have rows: "rows = sort_key (\<lambda>s. (day_of_week s, session_number s))
                  (filter is_active (meeting_schedules db))"
    using assms(1) by (simp add: getMeetingSchedules_def)
  show ?thesis
    using assms(2) unfolding rows distinct_map by simp
qed

lemma initializeMeetingScheduler_failed:
  "flt RearmGetMeetingSchedules \<Longrightarrow>
   initializeMeetingScheduler flt db ms = (Map.empty, ScheduleReadFailed)"
  by (simp add: initializeMeetingScheduler_def getMeetingSchedules_def)

lemma initializeMeetingScheduler_read:
  assumes "\<not> flt RearmGetMeetingSchedules" "getMeetingSchedules False db = Inr rows"
  shows "initializeMeetingScheduler flt db ms =
     (foldl arm Map.empty (takeWhile (\<lambda>s. cron_accepts (cron_for s)) rows),
      if list_all (\<lambda>s. cron_accepts (cron_for s)) rows then Rearmed else CronScheduleThrew)"
  using assms by (simp add: initializeMeetingScheduler_def arm_each_takeWhile)

lemma initializeMeetingScheduler_accepted:
  assumes "\<not> flt RearmGetMeetingSchedules" "getMeetingSchedules False db = Inr rows"
    and "\<forall>s\<in>set (meeting_schedules db). is_active s \<longrightarrow> cron_accepts (cron_for s)"
  shows "initializeMeetingScheduler flt db ms = (foldl arm Map.empty rows, Rearmed)"
proof -
  have all: "\<forall>s\<in>set rows. cron_accepts (cron_for s)"
    using getMeetingSchedules_ok [OF assms(2)] assms(3) by simp
  then have tw: "takeWhile (\<lambda>s. cron_accepts (cron_for s)) rows = rows"
    by (simp add: takeWhile_eq_all_conv)
  have la: "list_all (\<lambda>s. cron_accepts (cron_for s)) rows"
    using all by (simp add: list_all_iff)
  have "initializeMeetingScheduler flt db ms =
     (foldl arm Map.empty (takeWhile (\<lambda>s. cron_accepts (cron_for s)) rows),
      if list_all (\<lambda>s. cron_accepts (cron_for s)) rows then Rearmed else CronScheduleThrew)"
    using assms(1,2) by (rule initializeMeetingScheduler_read)
  then show ?thesis
    unfolding tw using la by simp
qed

lemma initializeMeetingScheduler_dom:
  assumes "\<not> flt RearmGetMeetingSchedules"
    and "\<forall>s\<in>set (meeting_schedules db). is_active s \<longrightarrow> cron_accepts (cron_for s)"
  shows "dom (fst (initializeMeetingScheduler flt db ms)) =
     (\<lambda>s. schedulerId (day_of_week s) (session_number s))
       ` {s \<in> set (meeting_schedules db). is_active s}"
proof -
  obtain rows where rows: "getMeetingSchedules False db = Inr rows"
    by (simp add: getMeetingSchedules_def)
  show ?thesis
    using initializeMeetingScheduler_accepted [of flt db rows ms] assms rows
      getMeetingSchedules_ok [OF rows]
    by (simp add: dom_foldl_arm)
qed

lemma initializeMeetingScheduler_lookup:
  assumes "\<not> flt RearmGetMeetingSchedules"
    and "\<forall>s\<in>set (meeting_schedules db). is_active s \<longrightarrow> cron_accepts (cron_for s)"
    and "distinct (map schedule_key (filter is_active (meeting_schedules db)))"
    and "s \<in> set (meeting_schedules db)" "is_active s"
  shows "fst (initializeMeetingScheduler flt db ms)
           (schedulerId (day_of_week s) (session_number s)) = Some (cron_for s)"
proof -
  obtain rows where rows: "getMeetingSchedules False db = Inr rows"
    by (simp add: getMeetingSchedules_def)
  have "s \<in> set rows" using getMeetingSchedules_ok [OF rows] assms(4,5) by simp
  moreover have "distinct (map schedule_key rows)"
    using distinct_keys_sorted [OF rows assms(3)] .
  ultimately show ?thesis
    using initializeMeetingScheduler_accepted [of flt db rows ms] assms(1,2) rows
    by (simp add: foldl_arm_distinct)
qed

lemma initializeMeetingScheduler_armed_job:
  assumes "\<not> flt RearmGetMeetingSchedules"
    and "distinct (map schedule_key (filter is_active (meeting_schedules db)))"
    and "s \<in> set (meeting_schedules db)" "is_active s"
    and "fst (initializeMeetingScheduler flt db ms)
           (schedulerId (day_of_week s) (session_number s)) = Some job"
  shows "job = cron_for s \<and> cron_accepts (cron_for s)"
proof -
  obtain rows where rows: "getMeetingSchedules False db = Inr rows"
    by (simp add: getMeetingSchedules_def)
  let ?ok = "\<lambda>s. cron_accepts (cron_for s)"
  let ?armed = "takeWhile ?ok rows"
  have s: "s \<in> set rows" using getMeetingSchedules_ok [OF rows] assms(3,4) by simp
  have d: "distinct (map schedule_key rows)"
    using distinct_keys_sorted [OF rows assms(2)] .
  have tbl: "fst (initializeMeetingScheduler flt db ms) = foldl arm Map.empty ?armed"
    using initializeMeetingScheduler_read [of flt db rows ms] assms(1) rows by simp
  from assms(5) have "schedulerId (day_of_week s) (session_number s)
      \<in> dom (foldl arm Map.empty ?armed)"
    unfolding tbl by blast
  then obtain y where y: "y \<in> set ?armed" "schedule_key y = schedule_key s"
    unfolding dom_foldl_arm same_id_same_key [symmetric] by auto
  from y(1) have yr: "y \<in> set rows" "?ok y" by (auto dest: set_takeWhileD)
  from distinct_keys_eq [OF d yr(1) s y(2)] have "y = s" .
  with y(1) yr(2) have in_armed: "s \<in> set ?armed" and ok: "?ok s" by simp_all
  have "distinct (map schedule_key ?armed)"
    using d by (metis distinct_map distinct_takeWhile inj_on_subset set_takeWhileD subsetI)
  from foldl_arm_distinct [OF this in_armed, of Map.empty] assms(5) tbl ok
  show ?thesis by simp
qed

lemma initializeMeetingScheduler_card:
  assumes "\<not> flt RearmGetMeetingSchedules"
    and "\<forall>s\<in>set (meeting_schedules db). is_active s \<longrightarrow> cron_accepts (cron_for s)"
    and "distinct (map schedule_key (filter is_active (meeting_schedules db)))"
  shows "card (dom (fst (initializeMeetingScheduler flt db ms)))
           = length (filter is_active (meeting_schedules db))"
proof -
  let ?act = "filter is_active (meeting_schedules db)"
  have inj: "inj_on (\<lambda>s. schedulerId (day_of_week s) (session_number s)) (set ?act)"
  proof (rule inj_onI)
    fix x y assume x: "x \<in> set ?act" and y: "y \<in> set ?act"
      and "schedulerId (day_of_week x) (session_number x) = schedulerId (day_of_week y) (session_number y)"
    then have "schedule_key x = schedule_key y"
      by (simp add: same_id_same_key)
    then show "x = y"
      by (rule distinct_keys_eq [OF assms(3) x y])
  qed
  have d: "distinct ?act" using assms(3) by (simp add: distinct_map)
  have "dom (fst (initializeMeetingScheduler flt db ms))
           = (\<lambda>s. schedulerId (day_of_week s) (session_number s)) ` set ?act"
    using initializeMeetingScheduler_dom [of flt db ms] assms(1,2) by simp
  then have "card (dom (fst (initializeMeetingScheduler flt db ms))) = card (set ?act)"
    using inj by (simp only: card_image)
  also have "\<dots> = length ?act"
    using d by (rule distinct_card)
  finally show ?thesis .
qed

lemma friday_late_end: "minute_of_day (end_time friday_late) = Some 1430"
  by (simp add: friday_late_def minute_of_day_def is_digit_def digit_val_def)

lemma monday_morning_end: "minute_of_day (end_time monday_morning) = Some 720"
  by (simp add: monday_morning_def minute_of_day_def is_digit_def digit_val_def)

lemma monday_only_active:
  "{s \<in> set (meeting_schedules monday_only). is_active s} = {monday_morning}"
  by (auto simp: monday_only_def monday_morning_def)

lemma monday_morning_key: "day_of_week monday_morning = 1" "session_number monday_morning = 1"
  by (simp_all add: monday_morning_def)

lemma monday_only_accepted:
  "\<forall>s\<in>set (meeting_schedules monday_only). is_active s \<longrightarrow> cron_accepts (cron_for s)"
  using cron_accepts_wf [OF monday_morning_end]
  by (simp add: monday_only_def monday_morning_key)

lemma armed_monday_dom: "dom armed_monday = {schedulerId 1 1}"
proof -
  have "\<not> no_faults RearmGetMeetingSchedules" by (simp add: no_faults_def)
  with initializeMeetingScheduler_dom [of no_faults monday_only Map.empty] monday_only_accepted
  show ?thesis
    by (simp add: armed_monday_def monday_only_active monday_morning_key)
qed

section \<open>Attendance records\<close>

lemma max_id_for_Some:
  "max_id_for recs m = Some i \<longleftrightarrow>
     (\<exists>r\<in>set recs. member_id r = m \<and> ar_id r = i)
     \<and> (\<forall>r\<in>set recs. member_id r = m \<longrightarrow> ar_id r \<le> i)"
proof (cases "map ar_id (filter (\<lambda>r. member_id r = m) recs)")
  case Nil
  then have "\<forall>r\<in>set recs. member_id r \<noteq> m"
    by (simp add: filter_empty_conv)
  with Nil show ?thesis by (auto simp: max_id_for_def)
next
  case (Cons j js)
  let ?ids = "set (map ar_id (filter (\<lambda>r. member_id r = m) recs))"
  have ids: "?ids = ar_id ` {r \<in> set recs. member_id r = m}" by auto
  have "fold max js j = Max (set (j # js))"
    by (simp only: Max.set_eq_fold)
  then have "max_id_for recs m = Some (Max ?ids)"
    using Cons by (simp add: max_id_for_def)
  moreover have "finite ?ids" "?ids \<noteq> {}" using Cons by simp_all
  then have "Max ?ids = i \<longleftrightarrow> i \<in> ?ids \<and> (\<forall>k\<in>?ids. k \<le> i)"
    by (metis Max_eqI Max_ge Max_in)
  ultimately show ?thesis unfolding ids by auto
qed

lemma highest_id_iff:
  "r \<in> set recs \<Longrightarrow> Some (ar_id r) = max_id_for recs (member_id r) \<longleftrightarrow> highest_id recs r"
  using max_id_for_Some [of recs "member_id r" "ar_id r"]
  by (auto simp: highest_id_def)

lemma set_checked_in_query:
  "set (checked_in_query db) =
     (\<Union>m\<in>set (members db).
        (\<lambda>ar. \<lparr>cm_id = m_id m, cm_name = m_name m, last_checkin = scan_time ar\<rparr>) `
          {ar \<in> set (attendance_records db).
             m_id m = member_id ar
             \<and> Some (ar_id ar) = max_id_for (attendance_records db) (m_id m)
             \<and> is_checkin ar})"
  by (simp add: checked_in_query_def sort_key_desc_def)

lemma checked_in_query_ids:
  "cm_id ` set (checked_in_query db) =
     m_id ` {m \<in> set (members db).
              \<exists>r\<in>set (attendance_records db).
                 member_id r = m_id m \<and> highest_id (attendance_records db) r \<and> is_checkin r}"
  (is "?L = ?R")
proof (rule set_eqI)
  fix x
  have "x \<in> ?L \<longleftrightarrow>
        (\<exists>m\<in>set (members db). \<exists>ar\<in>set (attendance_records db).
           x = m_id m \<and> m_id m = member_id ar
           \<and> Some (ar_id ar) = max_id_for (attendance_records db) (member_id ar)
           \<and> is_checkin ar)"
  proof
    assume "x \<in> ?L"
    then obtain c where c: "c \<in> set (checked_in_query db)" "x = cm_id c" by blast
    from c(1) obtain m ar where "m \<in> set (members db)" "ar \<in> set (attendance_records db)"
      "m_id m = member_id ar" "Some (ar_id ar) = max_id_for (attendance_records db) (m_id m)"
      "is_checkin ar" "c = \<lparr>cm_id = m_id m, cm_name = m_name m, last_checkin = scan_time ar\<rparr>"
      unfolding set_checked_in_query by blast
    with c(2) show "\<exists>m\<in>set (members db). \<exists>ar\<in>set (attendance_records db).
           x = m_id m \<and> m_id m = member_id ar
           \<and> Some (ar_id ar) = max_id_for (attendance_records db) (member_id ar)
           \<and> is_checkin ar"
      by (intro bexI [of _ m] bexI [of _ ar]) simp_all
  next
    assume "\<exists>m\<in>set (members db). \<exists>ar\<in>set (attendance_records db).
           x = m_id m \<and> m_id m = member_id ar
           \<and> Some (ar_id ar) = max_id_for (attendance_records db) (member_id ar)
           \<and> is_checkin ar"
    then obtain m ar where m: "m \<in> set (members db)" and ar: "ar \<in> set (attendance_records db)"
      and x: "x = m_id m" and e: "m_id m = member_id ar"
      and mx: "Some (ar_id ar) = max_id_for (attendance_records db) (member_id ar)"
      and chk: "is_checkin ar"
      by blast
    let ?c = "\<lparr>cm_id = m_id m, cm_name = m_name m, last_checkin = scan_time ar\<rparr>"
    have "ar \<in> {ar \<in> set (attendance_records db). m_id m = member_id ar
             \<and> Some (ar_id ar) = max_id_for (attendance_records db) (m_id m)
             \<and> is_checkin ar}"
      using ar e mx chk by simp
    then have "?c \<in> set (checked_in_query db)"
      unfolding set_checked_in_query using m by blast
    moreover have "cm_id ?c = x" using x by simp
    ultimately show "x \<in> ?L" by (metis imageI)
  qed
  also have "\<dots> \<longleftrightarrow>
        (\<exists>m\<in>set (members db). \<exists>ar\<in>set (attendance_records db).
           x = m_id m \<and> m_id m = member_id ar
           \<and> highest_id (attendance_records db) ar \<and> is_checkin ar)"
    using highest_id_iff [of _ "attendance_records db"] by blast
  also have "\<dots> \<longleftrightarrow> x \<in> ?R"
  proof
    assume "\<exists>m\<in>set (members db). \<exists>ar\<in>set (attendance_records db).
           x = m_id m \<and> m_id m = member_id ar
           \<and> highest_id (attendance_records db) ar \<and> is_checkin ar"
    then obtain m ar where m: "m \<in> set (members db)" and ar: "ar \<in> set (attendance_records db)"
      and x: "x = m_id m" and rest: "member_id ar = m_id m"
        "highest_id (attendance_records db) ar" "is_checkin ar"
      by auto
    from ar rest have "\<exists>r\<in>set (attendance_records db).
        member_id r = m_id m \<and> highest_id (attendance_records db) r \<and> is_checkin r"
      by blast
    with m have "m \<in> {m \<in> set (members db). \<exists>r\<in>set (attendance_records db).
        member_id r = m_id m \<and> highest_id (attendance_records db) r \<and> is_checkin r}"
      by simp
    then show "x \<in> ?R" unfolding x by (rule imageI)
  next
    assume "x \<in> ?R"
    then obtain m where x: "x = m_id m" and m: "m \<in> set (members db)"
      and "\<exists>r\<in>set (attendance_records db).
        member_id r = m_id m \<and> highest_id (attendance_records db) r \<and> is_checkin r"
      by auto
    then obtain r where "r \<in> set (attendance_records db)" "member_id r = m_id m"
      "highest_id (attendance_records db) r" "is_checkin r"
      by blast
    with m x show "\<exists>m\<in>set (members db). \<exists>ar\<in>set (attendance_records db).
           x = m_id m \<and> m_id m = member_id ar
           \<and> highest_id (attendance_records db) ar \<and> is_checkin ar"
      by (intro bexI [of _ m] bexI [of _ r]) simp_all
  qed
  finally show "x \<in> ?L \<longleftrightarrow> x \<in> ?R" .
qed

lemma time_follows_id_most_recent:
  assumes "time_follows_id recs" "r \<in> set recs"
  shows "spec_most_recent recs r \<longleftrightarrow> highest_id recs r"
proof
  assume h: "highest_id recs r"
  show "spec_most_recent recs r"
    unfolding spec_most_recent_def
  proof (intro conjI ballI impI)
    show "r \<in> set recs" by (rule assms(2))
    fix r' assume r': "r' \<in> set recs" "member_id r' = member_id r"
    with h have "ar_id r' \<le> ar_id r" by (simp add: highest_id_def)
    moreover from this assms r' have "scan_time r' \<le> scan_time r"
      by (simp add: time_follows_id_def)
    ultimately show "scan_time r' < scan_time r \<or> (scan_time r' = scan_time r \<and> ar_id r' \<le> ar_id r)"
      by auto
  qed
next
  assume s: "spec_most_recent recs r"
  show "highest_id recs r"
    unfolding highest_id_def
  proof (intro conjI ballI impI)
    show "r \<in> set recs" by (rule assms(2))
    fix r' assume r': "r' \<in> set recs" "member_id r' = member_id r"
    with s have c: "scan_time r' < scan_time r \<or> (scan_time r' = scan_time r \<and> ar_id r' \<le> ar_id r)"
      by (simp add: spec_most_recent_def)
    show "ar_id r' \<le> ar_id r"
    proof (rule ccontr)
      assume "\<not> ar_id r' \<le> ar_id r"
      then have "ar_id r \<le> ar_id r'" by simp
      with assms r' have "scan_time r \<le> scan_time r'" by (simp add: time_follows_id_def)
      with c \<open>\<not> ar_id r' \<le> ar_id r\<close> show False by auto
    qed
  qed
qed

lemma time_follows_id_insert:
  assumes "time_follows_id (attendance_records db)"
    and "\<forall>r\<in>set (attendance_records db). scan_time r \<le> ts"
  shows "time_follows_id (attendance_records (insert_attendance ts m c a n db))"
proof -
  have "x \<le> fold max xs s" if "x \<in> set xs" for x :: int and xs s
  proof -
    have "fold max xs s = Max (set (s # xs))" by (simp only: Max.set_eq_fold)
    with that show ?thesis by simp
  qed
  then have "ar_id r < next_attendance_id db" if "r \<in> set (attendance_records db)" for r
    using that by (force simp: next_attendance_id_def)
  with assms show ?thesis
    by (fastforce simp: time_follows_id_def insert_attendance_def)
qed

section \<open>Scanning\<close>

lemma getLastScanForMember_None:
  "getLastScanForMember flt memberId db = Inr None \<longleftrightarrow>
     \<not> flt GetLastScanForMember \<and> (\<forall>r\<in>set (attendance_records db). member_id r \<noteq> memberId)"
  by (auto simp: getLastScanForMember_def sort_key_desc_def first_row_None sort_key_Nil_iff
      filter_empty_conv)

text \<open>
  The row \<open>getLastScanForMember\<close> delivers: a record of the member with the latest
  \<^verbatim>\<open>scan_time\<close>, and among the member's records of that \<^verbatim>\<open>scan_time\<close> the one with the
  lowest id.
\<close>

lemma getLastScanForMember_Some:
  assumes "getLastScanForMember flt memberId db = Inr (Some r)"
  shows "r \<in> set (attendance_records db) \<and> member_id r = memberId
         \<and> (\<forall>r'\<in>set (attendance_records db). member_id r' = memberId \<longrightarrow>
               scan_time r' < scan_time r \<or> (scan_time r' = scan_time r \<and> ar_id r \<le> ar_id r'))"
proof -
  let ?xs = "sort_key ar_id (filter (\<lambda>r. member_id r = memberId) (attendance_records db))"
  from assms have fr: "first_row (sort_key_desc scan_time ?xs) = Some r"
    by (simp add: getLastScanForMember_def split: if_splits)
  from first_row_sort_key_desc [OF fr]
  have mem: "r \<in> set (attendance_records db)" "member_id r = memberId"
    and le: "\<forall>y\<in>set ?xs. scan_time y \<le> scan_time r"
    by auto
  have s: "sorted (map ar_id ?xs)" by (rule sorted_sort_key)
  have "scan_time r' < scan_time r \<or> (scan_time r' = scan_time r \<and> ar_id r \<le> ar_id r')"
    if "r' \<in> set (attendance_records db)" "member_id r' = memberId" for r'
  proof -
    from that have in_xs: "r' \<in> set ?xs" by simp
    with le have "scan_time r' \<le> scan_time r" by blast
    moreover have "ar_id r \<le> ar_id r'" if "scan_time r' = scan_time r"
      using fr s in_xs that by (rule first_row_sort_key_desc_tie)
    ultimately show ?thesis by (auto simp: less_le)
  qed
  with mem show ?thesis by blast
qed

lemma near_session_end_wf:
  assumes "minute_of_day (end_time s) = Some e"
  shows "near_session_end now s \<longleftrightarrow>
           0 \<le> int e - minutes_from_midnight now \<and> int e - minutes_from_midnight now \<le> 5"
proof -
  have "int (e div 60) * 60 + int (e mod 60) = int e"
    by (simp add: zdiv_int zmod_int)
  then show ?thesis
    by (auto simp: near_session_end_def split_hour_minute_wf [OF assms] js_minutes_def js_add_def
        js_le_def js_ge_def Let_def)
qed

lemma post_attendance_scan_known:
  assumes "barcode \<noteq> []"
    and "getMemberByBarcode flt barcode db = Inr (Some member)"
    and "getLastScanForMember flt (m_id member) db = Inr lastScan"
  shows "post_attendance_scan flt clk barcode db =
     (if (case lastScan of None \<Rightarrow> True | Some r \<Rightarrow> \<not> is_checkin r) then
        (case isWithinMeetingSchedule flt (at_isWithin clk) db of
           Inl err \<Rightarrow> (db, ScheduleCheckError)
         | Inr None \<Rightarrow>
            (case getNextMeetingSession flt (at_getNext clk) db of
               Inl err \<Rightarrow> (db, DatabaseError)
             | Inr nextSession \<Rightarrow> (db, CheckInNotAllowed (map_option next_hint nextSession)))
         | Inr (Some activeSession) \<Rightarrow>
             recordAttendanceWithSession flt clk member True (Some activeSession) db)
      else recordAttendanceWithSession flt clk member False None db)"
  using assms by (simp add: post_attendance_scan_def)

lemma recordAttendanceWithSession_checkout:
  "recordAttendanceWithSession flt clk member False None db =
     (if flt RecordAttendance then (db, DatabaseError)
      else (insert_attendance (current_timestamp clk) (m_id member) False False False db,
            ScanRecorded member ''check-out'' None False))"
  by (simp add: recordAttendanceWithSession_def recordAttendance_def Let_def)

lemma recordAttendanceWithSession_checkin:
  "recordAttendanceWithSession flt clk member True (Some s) db =
     (if flt RecordAttendance then (db, DatabaseError)
      else (insert_attendance (current_timestamp clk) (m_id member) True False
              (near_session_end (at_record clk) s) db,
            ScanRecorded member ''check-in''
              (Some \<lparr>info_number = session_number s, info_startTime = start_time s,
                     info_endTime = end_time s\<rparr>)
              (near_session_end (at_record clk) s)))"
  by (simp add: recordAttendanceWithSession_def recordAttendance_def Let_def)

lemma alice_by_barcode:
  "getMemberByBarcode no_faults ''A001'' monday_only = Inr (Some alice)"
  "getMemberByBarcode no_faults ''A001'' alice_checked_in = Inr (Some alice)"
  by (simp_all add: getMemberByBarcode_def no_faults_def monday_only_def alice_checked_in_def
      alice_def first_row_def)

lemma alice_first_scan: "getLastScanForMember no_faults (m_id alice) monday_only = Inr None"
  by (simp add: getLastScanForMember_def sort_key_desc_def no_faults_def monday_only_def
      first_row_def)

lemma alice_last_scan:
  "getLastScanForMember no_faults (m_id alice) alice_checked_in =
     Inr (Some \<lparr>ar_id = 1, member_id = 1, scan_time = ''2024-03-04 09:00:00'',
                is_checkin = True, is_auto_logout = False, needs_review = False\<rparr>)"
  by (simp add: getLastScanForMember_def sort_key_desc_def no_faults_def alice_checked_in_def
      alice_def first_row_def)

lemma currentTime_monday_at:
  "h < 24 \<Longrightarrow> m < 60 \<Longrightarrow>
   currentTime (monday_at h m) =
     [digit_char (h div 10), digit_char (h mod 10), CHR '':'',
      digit_char (m div 10), digit_char (m mod 10)]"
  by (simp add: currentTime_def monday_at_def hhmm_chars)


lemma sunday_outside:
  "isWithinMeetingSchedule no_faults (sunday_at 10 0) monday_only = Inr None"
  by (simp add: isWithinMeetingSchedule_def no_faults_def monday_only_def within_window_def
      monday_morning_def sunday_at_def first_row_def)

lemma sunday_next:
  "getNextMeetingSession no_faults (sunday_at 10 0) monday_only = Inr (Some monday_morning)"
proof -
  have d: "getDay (sunday_at 10 0) = 0" by (simp add: sunday_at_def)
  have a: "next_today (sunday_at 10 0) [monday_morning] = None"
    by (simp add: next_today_def monday_morning_def first_row_def d)
  have b: "next_in_week (sunday_at 10 0) [monday_morning] = Some monday_morning"
    by (simp add: next_in_week_def first_row_def d monday_morning_key)
      (simp add: monday_morning_def)
  show ?thesis
    by (simp add: getNextMeetingSession_def no_faults_def monday_only_def a b)
qed

section \<open>The force-logout pass\<close>

lemma logout_member_step:
  "logout_member flt ts (db, p, e) c =
     (if flt (RecordAutoLogout (cm_id c)) then (db, p + 1, e + 1)
      else (insert_attendance ts (cm_id c) False True True db, p + 1, e))"
  by (simp add: logout_member_def recordAutoLogout_def)

lemma foldl_logout_member:
  "\<exists>db' new.
     foldl (logout_member flt ts) (db, p, e) ms =
       (db', p + length ms, e + length (filter (\<lambda>c. flt (RecordAutoLogout (cm_id c))) ms))
     \<and> attendance_records db' = attendance_records db @ new
     \<and> map member_id new = map cm_id (filter (\<lambda>c. \<not> flt (RecordAutoLogout (cm_id c))) ms)
     \<and> (\<forall>r\<in>set new. \<not> is_checkin r \<and> is_auto_logout r \<and> needs_review r)"
proof (induction ms arbitrary: db p e)
  case Nil
  show ?case by simp
next
  case (Cons c ms)
  show ?case
  proof (cases "flt (RecordAutoLogout (cm_id c))")
    case True
    from Cons.IH [of db "p + 1" "e + 1"] True show ?thesis
      by (simp add: logout_member_step)
  next
    case False
    let ?db1 = "insert_attendance ts (cm_id c) False True True db"
    let ?r = "\<lparr>ar_id = next_attendance_id db, member_id = cm_id c, scan_time = ts,
               is_checkin = False, is_auto_logout = True, needs_review = True\<rparr>"
    have r: "attendance_records ?db1 = attendance_records db @ [?r]"
      by (simp add: insert_attendance_def)
    from Cons.IH [of ?db1 "p + 1" e] obtain db' new where
      f: "foldl (logout_member flt ts) (?db1, p + 1, e) ms =
            (db', p + 1 + length ms, e + length (filter (\<lambda>c. flt (RecordAutoLogout (cm_id c))) ms))"
      and a: "attendance_records db' = attendance_records ?db1 @ new"
      and m: "map member_id new = map cm_id (filter (\<lambda>c. \<not> flt (RecordAutoLogout (cm_id c))) ms)"
      and fl: "\<forall>r\<in>set new. \<not> is_checkin r \<and> is_auto_logout r \<and> needs_review r"
      by blast
    show ?thesis
    proof (intro exI [of _ db'] exI [of _ "?r # new"] conjI)
      show "foldl (logout_member flt ts) (db, p, e) (c # ms) =
          (db', p + length (c # ms),
           e + length (filter (\<lambda>c. flt (RecordAutoLogout (cm_id c))) (c # ms)))"
        using False f by (simp add: logout_member_step)
      show "attendance_records db' = attendance_records db @ ?r # new"
        using a r by simp
      show "map member_id (?r # new) =
          map cm_id (filter (\<lambda>c. \<not> flt (RecordAutoLogout (cm_id c))) (c # ms))"
        using False m by simp
      show "\<forall>r\<in>set (?r # new). \<not> is_checkin r \<and> is_auto_logout r \<and> needs_review r"
        using fl by simp
    qed
  qed
qed

lemma two_checked_in_rows:
  "getCurrentlyCheckedInMembers alice_write_fails two_checked_in =
     Inr [\<lparr>cm_id = 1, cm_name = ''Alice'', last_checkin = ''2024-03-04 09:05:00''\<rparr>,
          \<lparr>cm_id = 2, cm_name = ''Bob'', last_checkin = ''2024-03-04 09:00:00''\<rparr>]"
  by (simp add: getCurrentlyCheckedInMembers_def alice_write_fails_def two_checked_in_def
      checked_in_query_def sort_key_desc_def max_id_for_def alice_def bob_def)

section \<open>Replacing the schedule list\<close>

lemma update_step_ok:
  "\<not> flt (UpdateMeetingSchedule (dayOfWeek x) (sessionNumber x)) \<Longrightarrow>
   update_step flt (db, e) x =
     (db\<lparr>meeting_schedules :=
         filter (\<lambda>s. \<not> (day_of_week s = dayOfWeek x \<and> session_number s = sessionNumber x))
           (meeting_schedules db)
         @ [\<lparr>day_of_week = dayOfWeek x, session_number = sessionNumber x,
             start_time = startTime x, end_time = endTime x, is_active = True,
             session_name = Some (case sessionName x of
                 None \<Rightarrow> ''Session '' @ string_of_int (sessionNumber x)
               | Some n \<Rightarrow> if n = [] then ''Session '' @ string_of_int (sessionNumber x) else n)\<rparr>]\<rparr>,
      e)"
  by (simp add: update_step_def updateMeetingSchedule_def)

lemma update_step_failed:
  "flt (UpdateMeetingSchedule (dayOfWeek x) (sessionNumber x)) \<Longrightarrow>
   update_step flt (db, e) x = (db, e + 1)"
  by (simp add: update_step_def updateMeetingSchedule_def)

lemma update_step_establishes:
  assumes "\<not> flt (UpdateMeetingSchedule (dayOfWeek x) (sessionNumber x))"
  shows "active_at_key (dayOfWeek x, sessionNumber x) (fst (update_step flt (db, e) x))"
  using assms by (auto simp: update_step_ok [of flt x] active_at_key_def schedule_key_def)

lemma update_step_preserves:
  assumes "active_at_key k db"
  shows "active_at_key k (fst (update_step flt (db, e) x))"
proof (cases "flt (UpdateMeetingSchedule (dayOfWeek x) (sessionNumber x))")
  case True
  with assms show ?thesis by (simp add: update_step_failed)
next
  case False
  show ?thesis
  proof (cases "k = (dayOfWeek x, sessionNumber x)")
    case True
    then show ?thesis using update_step_establishes [of flt x db e] False by simp
  next
    case other: False
    from assms obtain r where r: "r \<in> set (meeting_schedules db)" "schedule_key r = k"
      and all: "\<forall>r\<in>set (meeting_schedules db). schedule_key r = k \<longrightarrow> is_active r"
      by (auto simp: active_at_key_def)
    from r other have "\<not> (day_of_week r = dayOfWeek x \<and> session_number r = sessionNumber x)"
      by (auto simp: schedule_key_def)
    moreover have "update_step flt (db, e) x =
     (db\<lparr>meeting_schedules :=
         filter (\<lambda>s. \<not> (day_of_week s = dayOfWeek x \<and> session_number s = sessionNumber x))
           (meeting_schedules db)
         @ [\<lparr>day_of_week = dayOfWeek x, session_number = sessionNumber x,
             start_time = startTime x, end_time = endTime x, is_active = True,
             session_name = Some (case sessionName x of
                 None \<Rightarrow> ''Session '' @ string_of_int (sessionNumber x)
               | Some n \<Rightarrow> if n = [] then ''Session '' @ string_of_int (sessionNumber x) else n)\<rparr>]\<rparr>,
      e)"
      using False by (simp add: update_step_ok)
    ultimately show ?thesis
      using r all other unfolding active_at_key_def
      by (auto simp: schedule_key_def)
  qed
qed

lemma foldl_update_step_active:
  assumes "x \<in> set xs" "\<not> flt (UpdateMeetingSchedule (dayOfWeek x) (sessionNumber x))"
  shows "active_at_key (dayOfWeek x, sessionNumber x) (fst (foldl (update_step flt) st xs))"
  using assms(1)
proof (induction xs rule: rev_induct)
  case Nil
  then show ?case by simp
next
  case (snoc y ys)
  obtain db e where st: "foldl (update_step flt) st ys = (db, e)"
    by (cases "foldl (update_step flt) st ys")
  show ?case
  proof (cases "x = y")
    case True
    then show ?thesis
      using update_step_establishes [of flt x db e] assms(2) st by simp
  next
    case False
    with snoc have "active_at_key (dayOfWeek x, sessionNumber x) db"
      using st by simp
    then show ?thesis
      using update_step_preserves [of "(dayOfWeek x, sessionNumber x)" db flt e y] st by simp
  qed
qed

lemma foldl_update_step_errors:
  "\<forall>c. \<not> flt c \<Longrightarrow> snd (foldl (update_step flt) (db, e) xs) = e"
proof (induction xs arbitrary: db e)
  case Nil
  show ?case by simp
next
  case (Cons x xs)
  then show ?case by (simp add: update_step_ok)
qed

lemma foldl_delete_step_errors:
  "\<forall>c. \<not> flt c \<Longrightarrow> snd (foldl (delete_step flt) (db, e) xs) = e"
proof (induction xs arbitrary: db e)
  case Nil
  show ?case by simp
next
  case (Cons x xs)
  then show ?case by (simp add: delete_step_def deleteMeetingSchedule_def)
qed

lemma foldl_delete_step_rows:
  "\<forall>c. \<not> flt c \<Longrightarrow>
   meeting_schedules (fst (foldl (delete_step flt) (db, e) cs)) =
     map (\<lambda>s. if schedule_key s \<in> schedule_key ` set cs then s\<lparr>is_active := False\<rparr> else s)
       (meeting_schedules db)"
proof (induction cs arbitrary: db e)
  case Nil
  show ?case by (simp add: map_idI)
next
  case (Cons c cs)
  have step: "delete_step flt (db, e) c =
      (db\<lparr>meeting_schedules :=
           map (\<lambda>s. if schedule_key s = schedule_key c then s\<lparr>is_active := False\<rparr> else s)
             (meeting_schedules db)\<rparr>, e)"
    using Cons.prems by (simp add: delete_step_def deleteMeetingSchedule_def schedule_key_def)
  show ?case
    unfolding foldl_Cons step Cons.IH [OF Cons.prems]
    by (auto simp: schedule_key_def)
qed

lemma deleted_rows_active:
  assumes "\<forall>c. \<not> flt c"
    and "getMeetingSchedules False db = Inr current"
    and "r \<in> set (meeting_schedules (fst (foldl (delete_step flt) (db, e)
            (filter (\<lambda>c. schedulerId (day_of_week c) (session_number c)
                     \<notin> set (map (\<lambda>s. schedulerId (dayOfWeek s) (sessionNumber s)) schedules))
               current))))"
    and "is_active r"
  shows "schedule_key r \<in> input_key ` set schedules"
proof -
  let ?del = "filter (\<lambda>c. schedulerId (day_of_week c) (session_number c)
                     \<notin> set (map (\<lambda>s. schedulerId (dayOfWeek s) (sessionNumber s)) schedules))
               current"
  from assms(3) obtain r0 where r0: "r0 \<in> set (meeting_schedules db)"
    and r: "r = (if schedule_key r0 \<in> schedule_key ` set ?del then r0\<lparr>is_active := False\<rparr> else r0)"
    unfolding foldl_delete_step_rows [OF assms(1)] by auto
  from r assms(4) have nd: "schedule_key r0 \<notin> schedule_key ` set ?del" and eq: "r = r0"
    by (auto split: if_splits)
  from eq assms(4) r0 have cur: "r0 \<in> set current"
    using getMeetingSchedules_ok [OF assms(2)] by simp
  from nd have "r0 \<notin> set ?del" by blast
  with cur have "schedulerId (day_of_week r0) (session_number r0)
      \<in> set (map (\<lambda>s. schedulerId (dayOfWeek s) (sessionNumber s)) schedules)"
    by simp
  then obtain x where x: "x \<in> set schedules"
    "schedulerId (day_of_week r0) (session_number r0) = schedulerId (dayOfWeek x) (sessionNumber x)"
    by auto
  from x(2) have "schedule_key r0 = input_key x"
    using schedulerId_inj [of "day_of_week r0" "session_number r0" "dayOfWeek x" "sessionNumber x"]
    by (simp add: schedule_key_def input_key_def)
  with x(1) eq show ?thesis by auto
qed

lemma update_step_rows:
  assumes "\<forall>c. \<not> flt c"
  shows "\<exists>row. stored_from x row
     \<and> meeting_schedules (fst (update_step flt (db, e) x)) =
         filter (\<lambda>s. schedule_key s \<noteq> input_key x) (meeting_schedules db) @ [row]"
proof -
  let ?row = "\<lparr>day_of_week = dayOfWeek x, session_number = sessionNumber x,
             start_time = startTime x, end_time = endTime x, is_active = True,
             session_name = Some (case sessionName x of
                 None \<Rightarrow> ''Session '' @ string_of_int (sessionNumber x)
               | Some n \<Rightarrow> if n = [] then ''Session '' @ string_of_int (sessionNumber x) else n)\<rparr>"
  have "stored_from x ?row" by (simp add: stored_from_def)
  moreover have "meeting_schedules (fst (update_step flt (db, e) x)) =
         filter (\<lambda>s. schedule_key s \<noteq> input_key x) (meeting_schedules db) @ [?row]"
    using assms by (simp add: update_step_ok schedule_key_def input_key_def)
  ultimately show ?thesis by blast
qed

lemma stored_from_key: "stored_from x r \<Longrightarrow> schedule_key r = input_key x"
  by (simp add: stored_from_def schedule_key_def input_key_def)

lemma foldl_update_step_keeps_active_keys:
  assumes "\<forall>c. \<not> flt c"
    and "\<forall>r\<in>set (meeting_schedules (fst st)). is_active r \<longrightarrow> schedule_key r \<in> K"
    and "input_key ` set xs \<subseteq> K"
  shows "\<forall>r\<in>set (meeting_schedules (fst (foldl (update_step flt) st xs))).
           is_active r \<longrightarrow> schedule_key r \<in> K"
  using assms(3)
proof (induction xs rule: rev_induct)
  case Nil
  show ?case using assms(2) by simp
next
  case (snoc y ys)
  obtain db e where st: "foldl (update_step flt) st ys = (db, e)"
    by (cases "foldl (update_step flt) st ys")
  from snoc have ih: "\<forall>r\<in>set (meeting_schedules db). is_active r \<longrightarrow> schedule_key r \<in> K"
    and y: "input_key y \<in> K"
    using st by simp_all
  from update_step_rows [OF assms(1), of y db e] obtain row where
    row: "stored_from y row"
    and rows: "meeting_schedules (fst (update_step flt (db, e) y)) =
         filter (\<lambda>s. schedule_key s \<noteq> input_key y) (meeting_schedules db) @ [row]"
    by blast
  show ?case
    using ih y stored_from_key [OF row] by (simp add: st rows)
qed

lemma foldl_update_step_stored:
  assumes "\<forall>c. \<not> flt c"
  shows "(\<forall>r\<in>set (meeting_schedules (fst (foldl (update_step flt) st xs))).
            schedule_key r \<in> input_key ` set xs \<longrightarrow> (\<exists>x\<in>set xs. stored_from x r))
         \<and> distinct (map schedule_key
              (filter (\<lambda>r. schedule_key r \<in> input_key ` set xs)
                 (meeting_schedules (fst (foldl (update_step flt) st xs)))))"
proof (induction xs rule: rev_induct)
  case Nil
  show ?case by simp
next
  case (snoc y ys)
  obtain db e where st: "foldl (update_step flt) st ys = (db, e)"
    by (cases "foldl (update_step flt) st ys")
  from snoc st have ihB: "\<forall>r\<in>set (meeting_schedules db).
            schedule_key r \<in> input_key ` set ys \<longrightarrow> (\<exists>x\<in>set ys. stored_from x r)"
    and ihC: "distinct (map schedule_key
              (filter (\<lambda>r. schedule_key r \<in> input_key ` set ys) (meeting_schedules db)))"
    by simp_all
  from update_step_rows [OF assms(1), of y db e] obtain row where
    row: "stored_from y row"
    and rows: "meeting_schedules (fst (update_step flt (db, e) y)) =
         filter (\<lambda>s. schedule_key s \<noteq> input_key y) (meeting_schedules db) @ [row]"
    by blast
  note k = stored_from_key [OF row]
  have B: "\<exists>x\<in>set (ys @ [y]). stored_from x r"
    if "r \<in> set (filter (\<lambda>s. schedule_key s \<noteq> input_key y) (meeting_schedules db) @ [row])"
       "schedule_key r \<in> input_key ` set (ys @ [y])" for r
  proof (cases "r = row")
    case True
    with row show ?thesis by auto
  next
    case False
    with that have "r \<in> set (meeting_schedules db)" "schedule_key r \<in> input_key ` set ys"
      by auto
    with ihB show ?thesis by auto
  qed
  have f: "filter (\<lambda>r. schedule_key r \<in> input_key ` set (ys @ [y]))
             (filter (\<lambda>s. schedule_key s \<noteq> input_key y) (meeting_schedules db) @ [row])
         = filter (\<lambda>s. schedule_key s \<noteq> input_key y)
             (filter (\<lambda>r. schedule_key r \<in> input_key ` set ys) (meeting_schedules db)) @ [row]"
    using k by (auto intro!: filter_cong)
  have C: "distinct (map schedule_key
             (filter (\<lambda>s. schedule_key s \<noteq> input_key y)
               (filter (\<lambda>r. schedule_key r \<in> input_key ` set ys) (meeting_schedules db)) @ [row]))"
  proof -
    have "distinct (map schedule_key
             (filter (\<lambda>s. schedule_key s \<noteq> input_key y)
               (filter (\<lambda>r. schedule_key r \<in> input_key ` set ys) (meeting_schedules db))))"
      using ihC by (rule distinct_map_filter)
    moreover have "schedule_key row \<notin> schedule_key `
         set (filter (\<lambda>s. schedule_key s \<noteq> input_key y)
               (filter (\<lambda>r. schedule_key r \<in> input_key ` set ys) (meeting_schedules db)))"
      using k by auto
    ultimately show ?thesis by simp
  qed
  show ?case
    unfolding foldl_append foldl_Cons foldl_Nil st rows f
    using B C by blast
qed

lemma distinct_map_filter_subset:
  assumes "distinct (map f (filter Q xs))" "\<forall>x\<in>set xs. P x \<longrightarrow> Q x"
  shows "distinct (map f (filter P xs))"
proof -
  have "filter P xs = filter P (filter Q xs)"
    using assms(2) by (auto intro!: filter_cong)
  then show ?thesis
    using assms(1) by (simp only: distinct_map_filter)
qed

lemma replaced_rows:
  assumes "\<forall>c. \<not> flt c" and "getMeetingSchedules False db = Inr current"
    and "foldl (update_step flt)
           (foldl (delete_step flt) (db, 0)
              (filter (\<lambda>c. schedulerId (day_of_week c) (session_number c)
                     \<notin> set (map (\<lambda>s. schedulerId (dayOfWeek s) (sessionNumber s)) schedules))
                 current))
           schedules = (db', e)"
  shows "(\<forall>r\<in>set (meeting_schedules db'). is_active r \<longrightarrow> (\<exists>x\<in>set schedules. stored_from x r))
         \<and> distinct (map schedule_key (filter is_active (meeting_schedules db')))"
proof -
  let ?st = "foldl (delete_step flt) (db, 0)
              (filter (\<lambda>c. schedulerId (day_of_week c) (session_number c)
                     \<notin> set (map (\<lambda>s. schedulerId (dayOfWeek s) (sessionNumber s)) schedules))
                 current)"
  have "\<forall>r\<in>set (meeting_schedules (fst ?st)). is_active r \<longrightarrow>
          schedule_key r \<in> input_key ` set schedules"
    using deleted_rows_active [OF assms(1,2)] by blast
  from foldl_update_step_keeps_active_keys [OF assms(1) this subset_refl]
  have A: "\<forall>r\<in>set (meeting_schedules db'). is_active r \<longrightarrow>
          schedule_key r \<in> input_key ` set schedules"
    unfolding assms(3) by simp
  from foldl_update_step_stored [OF assms(1), of ?st schedules]
  have B: "\<forall>r\<in>set (meeting_schedules db').
            schedule_key r \<in> input_key ` set schedules \<longrightarrow> (\<exists>x\<in>set schedules. stored_from x r)"
    and C: "distinct (map schedule_key
              (filter (\<lambda>r. schedule_key r \<in> input_key ` set schedules) (meeting_schedules db')))"
    unfolding assms(3) by simp_all
  from A B have 1: "\<forall>r\<in>set (meeting_schedules db'). is_active r \<longrightarrow>
      (\<exists>x\<in>set schedules. stored_from x r)"
    by blast
  from C A have 2: "distinct (map schedule_key (filter is_active (meeting_schedules db')))"
    by (rule distinct_map_filter_subset)
  from 1 2 show ?thesis ..
qed

lemma put_meeting_schedules_steps:
  assumes "\<not> flt GetMeetingSchedules" and "schedules \<noteq> []"
    and "getMeetingSchedules False db = Inr current"
    and "foldl (update_step flt)
           (foldl (delete_step flt) (db, 0)
              (filter (\<lambda>c. schedulerId (day_of_week c) (session_number c)
                     \<notin> set (map (\<lambda>s. schedulerId (dayOfWeek s) (sessionNumber s)) schedules))
                 current))
           schedules = (db', e)"
  shows "put_meeting_schedules flt schedules (db, ms) =
     (if e = 0 then ((db', fst (initializeMeetingScheduler flt db' ms)), SchedulesUpdated)
      else ((db', ms), SomeSchedulesFailed))"
  using assms by (simp add: put_meeting_schedules_def Let_def)

section \<open>The next session\<close>

text \<open>
  What the two queries of \<open>getNextMeetingSession\<close> select: the earliest later start among
  today's active sessions; failing that, the active session of another weekday that comes
  first in the order of the week starting after today, then by session number. A session
  on today's weekday that has already started is in neither query.
\<close>

lemma next_today_Some:
  assumes "next_today now rows = Some s"
  shows "s \<in> set rows \<and> is_active s \<and> day_of_week s = getDay now
         \<and> currentTime now < start_time s
         \<and> (\<forall>s'\<in>set rows. is_active s' \<and> day_of_week s' = getDay now
                \<and> currentTime now < start_time s' \<longrightarrow> start_time s \<le> start_time s')"
  using first_row_sort_key [OF assms [unfolded next_today_def]] by auto

lemma other_weekday_iff:
  assumes "valid_date now"
  shows "((day_of_week r > getDay now \<and> day_of_week r \<le> 6)
             \<or> (day_of_week r \<ge> 0 \<and> day_of_week r < getDay now))
           \<longleftrightarrow> day_of_week r \<noteq> getDay now \<and> 0 \<le> day_of_week r \<and> day_of_week r \<le> 6"
  using assms by (auto simp: valid_date_def)

lemma next_in_week_Some:
  assumes "valid_date now" "next_in_week now rows = Some s"
  shows "s \<in> set rows \<and> is_active s \<and> day_of_week s \<noteq> getDay now
         \<and> 0 \<le> day_of_week s \<and> day_of_week s \<le> 6
         \<and> (\<forall>s'\<in>set rows. is_active s' \<and> day_of_week s' \<noteq> getDay now
                \<and> 0 \<le> day_of_week s' \<and> day_of_week s' \<le> 6 \<longrightarrow>
                week_order (getDay now) s \<le> week_order (getDay now) s')"
  using first_row_sort_key [OF assms(2) [unfolded next_in_week_def other_weekday_iff [OF assms(1)]]]
  by auto

lemma getNextMeetingSession_None_iff:
  assumes "valid_date now" "\<not> flt NextSessionToday" "\<not> flt NextSessionWeek"
  shows "getNextMeetingSession flt now db = Inr None \<longleftrightarrow>
           (\<forall>s\<in>set (meeting_schedules db).
              is_active s \<and> 0 \<le> day_of_week s \<and> day_of_week s \<le> 6 \<longrightarrow>
              day_of_week s = getDay now \<and> start_time s \<le> currentTime now)"
proof -
  let ?rows = "meeting_schedules db"
  have t: "next_today now ?rows = None \<longleftrightarrow>
        (\<forall>s\<in>set ?rows. \<not> (day_of_week s = getDay now \<and> is_active s \<and> currentTime now < start_time s))"
    by (simp add: next_today_def first_row_None sort_key_Nil_iff filter_empty_conv)
  have w: "next_in_week now ?rows = None \<longleftrightarrow>
        (\<forall>s\<in>set ?rows. \<not> ((day_of_week s \<noteq> getDay now \<and> 0 \<le> day_of_week s \<and> day_of_week s \<le> 6)
                              \<and> is_active s))"
    by (simp add: next_in_week_def other_weekday_iff [OF assms(1)] first_row_None sort_key_Nil_iff
        filter_empty_conv)
  have "getNextMeetingSession flt now db = Inr None \<longleftrightarrow>
          next_today now ?rows = None \<and> next_in_week now ?rows = None"
    using assms(2,3) by (auto simp: getNextMeetingSession_def split: option.splits)
  also have "\<dots> \<longleftrightarrow> (\<forall>s\<in>set ?rows.
              is_active s \<and> 0 \<le> day_of_week s \<and> day_of_week s \<le> 6 \<longrightarrow>
              day_of_week s = getDay now \<and> start_time s \<le> currentTime now)"
    unfolding t w using assms(1) by (auto simp: valid_date_def not_less)
  finally show ?thesis .
qed

lemma getNextMeetingSession_Some:
  assumes "valid_date now" "getNextMeetingSession flt now db = Inr (Some s)"
  shows "next_today now (meeting_schedules db) = Some s \<and> \<not> flt NextSessionToday
         \<or> next_in_week now (meeting_schedules db) = Some s \<and> \<not> flt NextSessionWeek
            \<and> (flt NextSessionToday \<or> next_today now (meeting_schedules db) = None)"
  using assms(2) by (auto simp: getNextMeetingSession_def split: if_splits option.splits)


section \<open>Claims\<close>

subsection \<open>C1: the next session\<close>

text \<open>
  C1 says that \<open>getNextMeetingSession\<close> returns nothing only when no active session exists,
  and that it returns next week's occurrence when the only active sessions are on today's
  weekday and have already started. The second query of the function leaves out today's
  weekday (\<^verbatim>\<open>day_of_week > ?\<close> or \<^verbatim>\<open>day_of_week < ?\<close>): with the single active session
  Monday 08:00 to 12:00 and the clock at Monday 12:05, neither query has a row and the
  function returns nothing, although the table holds an active session.
\<close>

theorem getNextMeetingSession_same_weekday_only:
  "getNextMeetingSession no_faults (monday_at 12 5) monday_only = Inr None
   \<and> monday_morning \<in> set (meeting_schedules monday_only) \<and> is_active monday_morning"
proof -
  have t: "currentTime (monday_at 12 5) = ''12:05''"
    by (simp add: currentTime_def hhmm_chars monday_at_def digit_char_def)
  have d: "getDay (monday_at 12 5) = 1"
    by (simp add: monday_at_def)
  have a: "next_today (monday_at 12 5) [monday_morning] = None"
    by (simp add: next_today_def monday_morning_def first_row_def t d)
  have b: "next_in_week (monday_at 12 5) [monday_morning] = None"
    by (simp add: next_in_week_def monday_morning_def first_row_def t d)
  have "getNextMeetingSession no_faults (monday_at 12 5) monday_only = Inr None"
    by (simp add: getNextMeetingSession_def no_faults_def monday_only_def a b)
  moreover have "monday_morning \<in> set (meeting_schedules monday_only)"
    by (simp add: monday_only_def)
  moreover have "is_active monday_morning"
    by (simp add: monday_morning_def)
  ultimately show ?thesis by simp
qed

subsection \<open>C2: a failed rearm leaves no trigger\<close>

text \<open>
  C2 (amended). A rearm first discards every armed trigger. If the read of the schedule
  table then fails, the trigger table is left empty: the previous triggers are not kept.
  If the read succeeds and every active session has a well-formed \<^verbatim>\<open>HH:MM\<close> end time and
  a day of the week from 0 to 7, the rearm completes and the keys of the new table are
  exactly the keys of the active sessions; when those keys are distinct there is one
  trigger per active session, and the trigger of a session ending at minute \<open>e\<close> of the day
  has the minute and the hour of \<open>e + 15\<close> and the session's day of the week.
\<close>

theorem rearm_discards_then_arms:
  "(flt RearmGetMeetingSchedules \<longrightarrow>
      initializeMeetingScheduler flt db ms = (Map.empty, ScheduleReadFailed))
   \<and> (\<not> flt RearmGetMeetingSchedules
        \<and> (\<forall>s\<in>set (meeting_schedules db). is_active s \<longrightarrow> schedulable s) \<longrightarrow>
        snd (initializeMeetingScheduler flt db ms) = Rearmed
        \<and> dom (fst (initializeMeetingScheduler flt db ms))
          = (\<lambda>s. schedulerId (day_of_week s) (session_number s))
              ` {s \<in> set (meeting_schedules db). is_active s}
        \<and> (distinct (map schedule_key (filter is_active (meeting_schedules db))) \<longrightarrow>
             card (dom (fst (initializeMeetingScheduler flt db ms)))
               = length (filter is_active (meeting_schedules db))
             \<and> (\<forall>s\<in>set (meeting_schedules db). is_active s \<longrightarrow>
                  (\<exists>e. minute_of_day (end_time s) = Some e
                     \<and> fst (initializeMeetingScheduler flt db ms)
                         (schedulerId (day_of_week s) (session_number s))
                       = Some \<lparr>cron_minute = Some (int ((e + 15) mod 60)),
                               cron_hour = Some (int ((e + 15) div 60 mod 24)),
                               cron_day_of_week = day_of_week s\<rparr>))))"
proof (intro conjI impI ballI)
  assume "flt RearmGetMeetingSchedules"
  then show "initializeMeetingScheduler flt db ms = (Map.empty, ScheduleReadFailed)"
    by (rule initializeMeetingScheduler_failed)
next
  assume "\<not> flt RearmGetMeetingSchedules
        \<and> (\<forall>s\<in>set (meeting_schedules db). is_active s \<longrightarrow> schedulable s)"
  then have r: "\<not> flt RearmGetMeetingSchedules"
    and a: "\<forall>s\<in>set (meeting_schedules db). is_active s \<longrightarrow> cron_accepts (cron_for s)"
    by (simp_all add: schedulable_accepted)
  obtain rows where rows: "getMeetingSchedules False db = Inr rows"
    by (simp add: getMeetingSchedules_def)
  show "snd (initializeMeetingScheduler flt db ms) = Rearmed"
    using initializeMeetingScheduler_accepted [of flt db rows ms] r rows a by simp
  show "dom (fst (initializeMeetingScheduler flt db ms))
          = (\<lambda>s. schedulerId (day_of_week s) (session_number s))
              ` {s \<in> set (meeting_schedules db). is_active s}"
    using r a by (rule initializeMeetingScheduler_dom)
next
  assume "\<not> flt RearmGetMeetingSchedules
        \<and> (\<forall>s\<in>set (meeting_schedules db). is_active s \<longrightarrow> schedulable s)"
    and d: "distinct (map schedule_key (filter is_active (meeting_schedules db)))"
  then have r: "\<not> flt RearmGetMeetingSchedules"
    and a: "\<forall>s\<in>set (meeting_schedules db). is_active s \<longrightarrow> cron_accepts (cron_for s)"
    by (simp_all add: schedulable_accepted)
  show "card (dom (fst (initializeMeetingScheduler flt db ms)))
               = length (filter is_active (meeting_schedules db))"
    using r a d by (rule initializeMeetingScheduler_card)
next
  fix s
  assume h: "\<not> flt RearmGetMeetingSchedules
        \<and> (\<forall>s\<in>set (meeting_schedules db). is_active s \<longrightarrow> schedulable s)"
    and d: "distinct (map schedule_key (filter is_active (meeting_schedules db)))"
    and s: "s \<in> set (meeting_schedules db)" "is_active s"
  from h have r: "\<not> flt RearmGetMeetingSchedules"
    and a: "\<forall>s\<in>set (meeting_schedules db). is_active s \<longrightarrow> cron_accepts (cron_for s)"
    by (simp_all add: schedulable_accepted)
  from h s obtain e where e: "minute_of_day (end_time s) = Some e"
    by (auto simp: schedulable_def wf_time_def)
  have "fst (initializeMeetingScheduler flt db ms)
          (schedulerId (day_of_week s) (session_number s)) = Some (cron_for s)"
    using r a d s by (rule initializeMeetingScheduler_lookup)
  with e show "\<exists>e. minute_of_day (end_time s) = Some e
                     \<and> fst (initializeMeetingScheduler flt db ms)
                         (schedulerId (day_of_week s) (session_number s))
                       = Some \<lparr>cron_minute = Some (int ((e + 15) mod 60)),
                               cron_hour = Some (int ((e + 15) div 60 mod 24)),
                               cron_day_of_week = day_of_week s\<rparr>"
    by (simp add: cron_for_wf)
qed

theorem rearm_discards_then_arms_witness:
  "initializeMeetingScheduler rearm_read_fails monday_only armed_monday
     = (Map.empty, ScheduleReadFailed)
   \<and> snd (initializeMeetingScheduler no_faults monday_only armed_monday) = Rearmed
   \<and> dom (fst (initializeMeetingScheduler no_faults monday_only armed_monday)) = {schedulerId 1 1}
   \<and> fst (initializeMeetingScheduler no_faults monday_only armed_monday) (schedulerId 1 1)
       = Some \<lparr>cron_minute = Some 15, cron_hour = Some 12, cron_day_of_week = 1\<rparr>"
proof -
  have f: "rearm_read_fails RearmGetMeetingSchedules" by (simp add: rearm_read_fails_def)
  have n: "\<not> no_faults RearmGetMeetingSchedules" by (simp add: no_faults_def)
  have w: "\<forall>s\<in>set (meeting_schedules monday_only). is_active s \<longrightarrow> schedulable s"
    using monday_morning_end
    by (simp add: monday_only_def schedulable_def wf_time_def monday_morning_key)
  have d: "distinct (map schedule_key (filter is_active (meeting_schedules monday_only)))"
    by (simp add: monday_only_def)
  have m: "monday_morning \<in> set (meeting_schedules monday_only)" "is_active monday_morning"
    by (simp_all add: monday_only_def monday_morning_def)
  note a = monday_only_active and k = monday_morning_key
  from rearm_discards_then_arms [of rearm_read_fails monday_only armed_monday] f
  have 1: "initializeMeetingScheduler rearm_read_fails monday_only armed_monday
             = (Map.empty, ScheduleReadFailed)"
    by blast
  from rearm_discards_then_arms [of no_faults monday_only armed_monday] n w
  have ok: "snd (initializeMeetingScheduler no_faults monday_only armed_monday) = Rearmed"
    and dm: "dom (fst (initializeMeetingScheduler no_faults monday_only armed_monday))
          = (\<lambda>s. schedulerId (day_of_week s) (session_number s))
              ` {s \<in> set (meeting_schedules monday_only). is_active s}"
    and jobs: "distinct (map schedule_key (filter is_active (meeting_schedules monday_only))) \<longrightarrow>
             card (dom (fst (initializeMeetingScheduler no_faults monday_only armed_monday)))
               = length (filter is_active (meeting_schedules monday_only))
             \<and> (\<forall>s\<in>set (meeting_schedules monday_only). is_active s \<longrightarrow>
                  (\<exists>e. minute_of_day (end_time s) = Some e
                     \<and> fst (initializeMeetingScheduler no_faults monday_only armed_monday)
                         (schedulerId (day_of_week s) (session_number s))
                       = Some \<lparr>cron_minute = Some (int ((e + 15) mod 60)),
                               cron_hour = Some (int ((e + 15) div 60 mod 24)),
                               cron_day_of_week = day_of_week s\<rparr>))"
    by blast+
  from dm have 2: "dom (fst (initializeMeetingScheduler no_faults monday_only armed_monday))
      = {schedulerId 1 1}"
    by (simp add: a k)
  from jobs d m obtain e where "minute_of_day (end_time monday_morning) = Some e"
    and "fst (initializeMeetingScheduler no_faults monday_only armed_monday)
                         (schedulerId (day_of_week monday_morning) (session_number monday_morning))
                       = Some \<lparr>cron_minute = Some (int ((e + 15) mod 60)),
                               cron_hour = Some (int ((e + 15) div 60 mod 24)),
                               cron_day_of_week = day_of_week monday_morning\<rparr>"
    by blast
  then have 3: "fst (initializeMeetingScheduler no_faults monday_only armed_monday) (schedulerId 1 1)
       = Some \<lparr>cron_minute = Some 15, cron_hour = Some 12, cron_day_of_week = 1\<rparr>"
    by (simp add: monday_morning_end k)
  from 1 ok 2 3 show ?thesis by simp
qed

text \<open>
  C2 as stated fails: with the Monday trigger armed, a rearm whose read of the schedule
  table fails leaves no trigger at all, so the previous trigger set does not remain.
\<close>

theorem rearm_failure_drops_triggers:
  "getMeetingSchedules (rearm_read_fails RearmGetMeetingSchedules) monday_only = Inl DbError
   \<and> schedulerId 1 1 \<in> dom armed_monday
   \<and> initializeMeetingScheduler rearm_read_fails monday_only armed_monday
       = (Map.empty, ScheduleReadFailed)"
  by (simp add: armed_monday_dom initializeMeetingScheduler_failed rearm_read_fails_def
      getMeetingSchedules_def)

subsection \<open>C3: who is checked in\<close>

text \<open>
  C3 (amended). When its two queries succeed, \<open>getCurrentlyCheckedInMembers\<close> returns
  exactly the members (of the members table) whose attendance record with the highest id
  is a check-in; the answer is a function of the stored records alone. For a store in
  which timestamps do not decrease as ids grow, these are exactly the members whose most
  recent record (latest \<^verbatim>\<open>scan_time\<close>, ties broken by the highest id) is a check-in.
\<close>

theorem checked_in_by_highest_id:
  assumes "\<not> flt CountAttendanceRecords" and "\<not> flt SelectCheckedIn"
  shows "\<exists>rows. getCurrentlyCheckedInMembers flt db = Inr rows
     \<and> cm_id ` set rows =
         m_id ` {m \<in> set (members db).
                  \<exists>r\<in>set (attendance_records db).
                    member_id r = m_id m \<and> highest_id (attendance_records db) r \<and> is_checkin r}
     \<and> (time_follows_id (attendance_records db) \<longrightarrow> cm_id ` set rows = spec_checked_in db)"
proof -
  let ?recs = "attendance_records db"
  let ?code = "m_id ` {m \<in> set (members db).
                  \<exists>r\<in>set ?recs. member_id r = m_id m \<and> highest_id ?recs r \<and> is_checkin r}"
  have empty: "?code = {}" if "?recs = []"
    using that by simp
  have rows: "getCurrentlyCheckedInMembers flt db
                = Inr (if ?recs = [] then [] else checked_in_query db)"
    using assms by (simp add: getCurrentlyCheckedInMembers_def)
  have ids: "cm_id ` set (if ?recs = [] then [] else checked_in_query db) = ?code"
    using empty checked_in_query_ids [of db] by (cases "?recs = []") simp_all
  have spec: "?code = spec_checked_in db" if "time_follows_id ?recs"
  proof -
    have "highest_id ?recs r = spec_most_recent ?recs r" if "r \<in> set ?recs" for r
      using time_follows_id_most_recent [OF \<open>time_follows_id ?recs\<close> that] by simp
    then have "{m \<in> set (members db).
                  \<exists>r\<in>set ?recs. member_id r = m_id m \<and> highest_id ?recs r \<and> is_checkin r}
             = {m \<in> set (members db).
                  \<exists>r\<in>set ?recs. member_id r = m_id m \<and> spec_most_recent ?recs r \<and> is_checkin r}"
      by blast
    then show ?thesis by (simp only: spec_checked_in_def)
  qed
  show ?thesis
  proof (intro exI conjI impI)
    show "getCurrentlyCheckedInMembers flt db
                = Inr (if ?recs = [] then [] else checked_in_query db)" by (rule rows)
    show "cm_id ` set (if ?recs = [] then [] else checked_in_query db) = ?code" by (rule ids)
    assume "time_follows_id ?recs"
    then show "cm_id ` set (if ?recs = [] then [] else checked_in_query db) = spec_checked_in db"
      using ids spec by simp
  qed
qed

theorem checked_in_by_highest_id_witness:
  "time_follows_id (attendance_records alice_checked_in)
   \<and> (\<exists>rows. getCurrentlyCheckedInMembers no_faults alice_checked_in = Inr rows
         \<and> cm_id ` set rows = {1})
   \<and> spec_checked_in alice_checked_in = {1}"
proof -
  have h: "\<not> no_faults CountAttendanceRecords" "\<not> no_faults SelectCheckedIn"
    by (simp_all add: no_faults_def)
  have t: "time_follows_id (attendance_records alice_checked_in)"
    by (simp add: time_follows_id_def alice_checked_in_def)
  have hi: "highest_id (attendance_records alice_checked_in) r \<longleftrightarrow>
              r \<in> set (attendance_records alice_checked_in)" for r
    by (auto simp: highest_id_def alice_checked_in_def)
  have s: "m_id ` {m \<in> set (members alice_checked_in).
                  \<exists>r\<in>set (attendance_records alice_checked_in).
                    member_id r = m_id m \<and> highest_id (attendance_records alice_checked_in) r
                    \<and> is_checkin r} = {1}"
    unfolding hi by (auto simp: alice_checked_in_def alice_def)
  from checked_in_by_highest_id [of no_faults alice_checked_in] h
  obtain rows where "getCurrentlyCheckedInMembers no_faults alice_checked_in = Inr rows"
    "cm_id ` set rows = {1}" "cm_id ` set rows = spec_checked_in alice_checked_in"
    unfolding s using t by auto
  with t show ?thesis by auto
qed

text \<open>
  C3 as stated fails: in a store where the record with the highest id is not the one with
  the latest \<^verbatim>\<open>scan_time\<close>, the query follows the id. Alice's latest record by time is a
  check-in, so the specification counts her as checked in; the query returns nobody.
\<close>

theorem checked_in_ignores_scan_time:
  "getCurrentlyCheckedInMembers no_faults clock_set_back = Inr []
   \<and> spec_checked_in clock_set_back = {1}"
proof -
  have 1: "getCurrentlyCheckedInMembers no_faults clock_set_back = Inr []"
    by (simp add: getCurrentlyCheckedInMembers_def no_faults_def clock_set_back_def
        checked_in_query_def sort_key_desc_def max_id_for_def alice_def)
  let ?r1 = "\<lparr>ar_id = 1, member_id = 1, scan_time = ''2024-03-04 09:30:00'', is_checkin = True,
         is_auto_logout = False, needs_review = False\<rparr>"
  have "spec_most_recent (attendance_records clock_set_back) ?r1"
    by (simp add: spec_most_recent_def clock_set_back_def)
  moreover have "?r1 \<in> set (attendance_records clock_set_back)"
    by (simp add: clock_set_back_def)
  ultimately have "\<exists>r\<in>set (attendance_records clock_set_back).
      member_id r = m_id alice \<and> spec_most_recent (attendance_records clock_set_back) r \<and> is_checkin r"
    by (intro bexI [of _ ?r1]) (simp_all add: alice_def)
  moreover have "set (members clock_set_back) = {alice}"
    by (simp add: clock_set_back_def)
  ultimately have "{m \<in> set (members clock_set_back).
      \<exists>r\<in>set (attendance_records clock_set_back).
        member_id r = m_id m \<and> spec_most_recent (attendance_records clock_set_back) r \<and> is_checkin r}
      = {alice}"
    by blast
  then have 2: "spec_checked_in clock_set_back = {1}"
    by (simp only: spec_checked_in_def) (simp add: alice_def)
  from 1 2 show ?thesis by simp
qed

subsection \<open>C4: the session window is inclusive at both ends\<close>

text \<open>
  C4 (amended). When the schedule query succeeds, the clock reading is a valid date and the
  active rows of now's weekday have well-formed \<^verbatim>\<open>HH:MM\<close> times, \<open>isWithinMeetingSchedule\<close>
  returns a session exactly when some active session of now's weekday has start minute
  \<open>\<le>\<close> now's minute \<open>\<le>\<close> end minute, and the session it returns is such a session of the
  table, the one with the lowest session number. Both bounds are included: at a time
  equal to the start or the end of an active session of today (whose start is not after
  its end) the answer is a session; and a session whose end is one minute before now is
  never the answer. With the single session 08:00 to 12:00 the answer is that session at
  08:00 and at 12:00, and none at 12:01.
\<close>

theorem isWithinMeetingSchedule_inclusive:
  assumes "\<not> flt IsWithinMeetingSchedule" and "valid_date now"
    and "\<forall>s\<in>set (meeting_schedules db).
           is_active s \<and> day_of_week s = getDay now \<longrightarrow> wf_schedule s"
  shows "\<exists>r. isWithinMeetingSchedule flt now db = Inr r
     \<and> (r = None \<longleftrightarrow> \<not> (\<exists>s\<in>set (meeting_schedules db). spec_in_session now s))
     \<and> (\<forall>s. r = Some s \<longrightarrow>
           s \<in> set (meeting_schedules db) \<and> spec_in_session now s
           \<and> (\<forall>s'\<in>set (meeting_schedules db).
                 spec_in_session now s' \<longrightarrow> session_number s \<le> session_number s'))
     \<and> (\<forall>s\<in>set (meeting_schedules db).
           is_active s \<and> day_of_week s = getDay now \<and> start_time s \<le> end_time s
           \<and> (currentTime now = start_time s \<or> currentTime now = end_time s) \<longrightarrow> r \<noteq> None)
     \<and> (\<forall>s\<in>set (meeting_schedules db).
           minutes_from_midnight now = int (the (minute_of_day (end_time s))) + 1 \<longrightarrow> r \<noteq> Some s)"
proof -
  let ?rows = "meeting_schedules db"
  let ?r = "first_row (sort_key session_number (filter (within_window now) ?rows))"
  have eq: "isWithinMeetingSchedule flt now db = Inr ?r"
    using assms(1) by (simp add: isWithinMeetingSchedule_def)
  have ww: "within_window now s = spec_in_session now s" if "s \<in> set ?rows" for s
  proof (cases "is_active s \<and> day_of_week s = getDay now")
    case True
    with that assms(3) have "wf_schedule s" by blast
    with assms(2) show ?thesis by (rule within_window_spec)
  next
    case False
    then show ?thesis by (auto simp: within_window_def spec_in_session_def)
  qed
  have none: "?r = None \<longleftrightarrow> \<not> (\<exists>s\<in>set ?rows. spec_in_session now s)"
    using ww by (auto simp: first_row_None sort_key_Nil_iff filter_empty_conv)
  have some: "s \<in> set ?rows \<and> spec_in_session now s
           \<and> (\<forall>s'\<in>set ?rows. spec_in_session now s' \<longrightarrow> session_number s \<le> session_number s')"
    if "?r = Some s" for s
    using first_row_sort_key [OF that] ww by auto
  have bound: "?r \<noteq> None"
    if "s \<in> set ?rows" "is_active s" "day_of_week s = getDay now" "start_time s \<le> end_time s"
       "currentTime now = start_time s \<or> currentTime now = end_time s" for s
  proof -
    have "within_window now s"
      using that by (auto simp: within_window_def)
    with that(1) show ?thesis
      by (auto simp: first_row_None sort_key_Nil_iff filter_empty_conv)
  qed
  have after: "?r \<noteq> Some s"
    if "s \<in> set ?rows" "minutes_from_midnight now = int (the (minute_of_day (end_time s))) + 1" for s
  proof
    assume "?r = Some s"
    then have "spec_in_session now s" using some by blast
    then show False using that(2)
      by (auto simp: spec_in_session_def split: option.splits)
  qed
  show ?thesis
  proof (intro exI conjI ballI allI impI)
    show "isWithinMeetingSchedule flt now db = Inr ?r" by (rule eq)
    show "?r = None \<longleftrightarrow> \<not> (\<exists>s\<in>set ?rows. spec_in_session now s)" by (rule none)
  qed (use some bound after in blast)+
qed

theorem isWithinMeetingSchedule_inclusive_witness:
  "isWithinMeetingSchedule no_faults (monday_at 8 0) monday_only = Inr (Some monday_morning)
   \<and> isWithinMeetingSchedule no_faults (monday_at 12 0) monday_only = Inr (Some monday_morning)
   \<and> isWithinMeetingSchedule no_faults (monday_at 12 1) monday_only = Inr None"
proof -
  have h1: "\<not> no_faults IsWithinMeetingSchedule" by (simp add: no_faults_def)
  have h3: "\<forall>s\<in>set (meeting_schedules monday_only).
              is_active s \<and> day_of_week s = getDay (monday_at h m) \<longrightarrow> wf_schedule s" for h m
    by (simp add: monday_only_def wf_monday_morning)
  have start: "minute_of_day (start_time monday_morning) = Some 480"
    by (simp add: monday_morning_def minute_of_day_def is_digit_def digit_val_def)
  have spec: "spec_in_session (monday_at h m) monday_morning
                \<longleftrightarrow> 480 \<le> h * 60 + m \<and> h * 60 + m \<le> 720" for h m
    by (simp add: spec_in_session_def start monday_morning_end minutes_from_midnight_def)
      (simp add: monday_morning_def monday_at_def, linarith)
  have res: "isWithinMeetingSchedule no_faults (monday_at h m) monday_only =
               Inr (if 480 \<le> h * 60 + m \<and> h * 60 + m \<le> 720 then Some monday_morning else None)"
    if v: "valid_date (monday_at h m)" for h m
  proof -
    from isWithinMeetingSchedule_inclusive [of no_faults "monday_at h m" monday_only, OF h1 v h3]
    obtain r where r: "isWithinMeetingSchedule no_faults (monday_at h m) monday_only = Inr r"
      and none: "r = None \<longleftrightarrow>
            \<not> (\<exists>s\<in>set (meeting_schedules monday_only). spec_in_session (monday_at h m) s)"
      and some: "\<forall>s. r = Some s \<longrightarrow>
            s \<in> set (meeting_schedules monday_only) \<and> spec_in_session (monday_at h m) s
            \<and> (\<forall>s'\<in>set (meeting_schedules monday_only).
                 spec_in_session (monday_at h m) s' \<longrightarrow> session_number s \<le> session_number s')"
      by (elim exE conjE) (rule that, assumption+)
    show ?thesis
    proof (cases "480 \<le> h * 60 + m \<and> h * 60 + m \<le> 720")
      case True
      with none spec have "r \<noteq> None" by (simp add: monday_only_def)
      then obtain s where s: "r = Some s" by auto
      with some have "s = monday_morning" by (simp add: monday_only_def)
      with r s True show ?thesis by simp
    next
      case False
      with none spec have "r = None" by (simp add: monday_only_def)
      with r False show ?thesis by simp
    qed
  qed
  have v: "valid_date (monday_at 8 0)" "valid_date (monday_at 12 0)" "valid_date (monday_at 12 1)"
    by (simp_all add: valid_date_def monday_at_def)
  show ?thesis
    using res [OF v(1)] res [OF v(2)] res [OF v(3)] by simp
qed

text \<open>
  C4 as stated fails for a table whose times are not all zero-padded: the query compares
  the stored texts, and the handler that replaces the schedule list stores the times as
  they were sent. With the active Monday session stored as \<^verbatim>\<open>8:00\<close> to \<^verbatim>\<open>12:00\<close>, at
  09:00 on a Monday (minute 540 of the day, between the session's 8 h 00 and 12 h 00 as
  the scheduler reads them) no session is returned, because the text \<^verbatim>\<open>8:00\<close> is greater
  than the text \<^verbatim>\<open>09:00\<close>.
\<close>

theorem isWithinMeetingSchedule_unpadded_start:
  "isWithinMeetingSchedule no_faults (monday_at 9 0) unpadded_only = Inr None
   \<and> meeting_schedules unpadded_only = [unpadded_morning]
   \<and> is_active unpadded_morning
   \<and> day_of_week unpadded_morning = getDay (monday_at 9 0)
   \<and> split_hour_minute (start_time unpadded_morning) = (Some 8, Some 0)
   \<and> split_hour_minute (end_time unpadded_morning) = (Some 12, Some 0)
   \<and> minutes_from_midnight (monday_at 9 0) = 540"
proof -
  have t: "currentTime (monday_at 9 0) = ''09:00''"
    by (simp add: currentTime_monday_at digit_char_def)
  have d: "getDay (monday_at 9 0) = 1" by (simp add: monday_at_def)
  have 1: "isWithinMeetingSchedule no_faults (monday_at 9 0) unpadded_only = Inr None"
    by (simp add: isWithinMeetingSchedule_def no_faults_def unpadded_only_def within_window_def
        unpadded_morning_def t d first_row_def)
  have 2: "split_hour_minute (start_time unpadded_morning) = (Some 8, Some 0)"
    by (simp add: unpadded_morning_def split_hour_minute_def Number_def is_digit_def digit_val_def)
  have 3: "split_hour_minute (end_time unpadded_morning) = (Some 12, Some 0)"
    by (simp add: unpadded_morning_def split_hour_minute_def Number_def is_digit_def digit_val_def)
  have 4: "minutes_from_midnight (monday_at 9 0) = 540"
    by (simp add: minutes_from_midnight_def monday_at_def)
  from 1 2 3 4 d show ?thesis
    by (simp add: unpadded_only_def) (simp add: unpadded_morning_def)
qed

subsection \<open>C5: the direction of a scan\<close>

text \<open>
  C5 fails in the code for scans that share a second. \<open>getLastScanForMember\<close> orders by
  \<^verbatim>\<open>scan_time\<close> alone, and \<^verbatim>\<open>CURRENT_TIMESTAMP\<close> has the resolution of a second: among the
  records of one second the query delivers the oldest, not the newest. Alice scans three
  times within the second 09:00:00 of a Monday, during the session, starting from an
  empty store. The first scan is a check-in and the second a check-out, as claimed. Before
  the third scan her most recent record is the check-out with id 2, the last one written,
  so the scan should be a check-in; the query delivers the check-in with id 1, and the scan is recorded as a
  second check-out.
\<close>

theorem same_second_scans_misclassified:
  "post_attendance_scan no_faults nine_sharp ''A001'' (alice_scanned [])
     = (alice_scanned [first_in],
        ScanRecorded alice ''check-in''
          (Some \<lparr>info_number = 1, info_startTime = ''08:00'', info_endTime = ''12:00''\<rparr>) False)
   \<and> post_attendance_scan no_faults nine_sharp ''A001'' (alice_scanned [first_in])
     = (alice_scanned [first_in, then_out], ScanRecorded alice ''check-out'' None False)
   \<and> last (attendance_records (alice_scanned [first_in, then_out])) = then_out
   \<and> scan_time first_in = scan_time then_out \<and> ar_id first_in < ar_id then_out
   \<and> \<not> is_checkin then_out
   \<and> getLastScanForMember no_faults (m_id alice) (alice_scanned [first_in, then_out])
     = Inr (Some first_in)
   \<and> post_attendance_scan no_faults nine_sharp ''A001'' (alice_scanned [first_in, then_out])
     = (alice_scanned [first_in, then_out, out_again],
        ScanRecorded alice ''check-out'' None False)"
proof -
  have m: "getMemberByBarcode no_faults ''A001'' (alice_scanned recs) = Inr (Some alice)" for recs
    by (simp add: getMemberByBarcode_def no_faults_def alice_scanned_def alice_def first_row_def)
  have t: "currentTime (monday_at 9 0) = ''09:00''"
    by (simp add: currentTime_monday_at digit_char_def)
  have w: "isWithinMeetingSchedule no_faults (at_isWithin nine_sharp) (alice_scanned recs)
             = Inr (Some monday_morning)" for recs
    by (simp add: isWithinMeetingSchedule_def no_faults_def alice_scanned_def within_window_def
        nine_sharp_def clock_at_def t first_row_def)
      (simp add: monday_morning_def monday_at_def)
  have n: "\<not> near_session_end (at_record nine_sharp) monday_morning"
    using near_session_end_wf [OF monday_morning_end, of "monday_at 9 0"]
    by (simp add: nine_sharp_def clock_at_def minutes_from_midnight_def monday_at_def)
  have l0: "getLastScanForMember no_faults (m_id alice) (alice_scanned []) = Inr None"
    by (simp add: getLastScanForMember_def sort_key_desc_def no_faults_def alice_scanned_def
        first_row_def)
  have l1: "getLastScanForMember no_faults (m_id alice) (alice_scanned [first_in])
              = Inr (Some first_in)"
    by (simp add: getLastScanForMember_def sort_key_desc_def no_faults_def alice_scanned_def
        first_row_def alice_def first_in_def)
  have l2: "getLastScanForMember no_faults (m_id alice) (alice_scanned [first_in, then_out])
              = Inr (Some first_in)"
    by (simp add: getLastScanForMember_def sort_key_desc_def no_faults_def alice_scanned_def
        first_row_def alice_def first_in_def then_out_def)
  have ts: "current_timestamp nine_sharp = ''2024-03-04 09:00:00''"
    by (simp add: nine_sharp_def clock_at_def)
  have i0: "insert_attendance ''2024-03-04 09:00:00'' (m_id alice) True False False
              (alice_scanned []) = alice_scanned [first_in]"
    by (simp add: insert_attendance_def next_attendance_id_def alice_scanned_def alice_def
        first_in_def)
  have i1: "insert_attendance ''2024-03-04 09:00:00'' (m_id alice) False False False
              (alice_scanned [first_in]) = alice_scanned [first_in, then_out]"
    by (simp add: insert_attendance_def next_attendance_id_def alice_scanned_def alice_def
        first_in_def then_out_def)
  have i2: "insert_attendance ''2024-03-04 09:00:00'' (m_id alice) False False False
              (alice_scanned [first_in, then_out]) = alice_scanned [first_in, then_out, out_again]"
    by (simp add: insert_attendance_def next_attendance_id_def alice_scanned_def alice_def
        first_in_def then_out_def out_again_def)
  have nf: "\<not> no_faults RecordAttendance" by (simp add: no_faults_def)
  have s0: "post_attendance_scan no_faults nine_sharp ''A001'' (alice_scanned [])
     = (alice_scanned [first_in],
        ScanRecorded alice ''check-in''
          (Some \<lparr>info_number = 1, info_startTime = ''08:00'', info_endTime = ''12:00''\<rparr>) False)"
    using post_attendance_scan_known [of "''A001''" no_faults "alice_scanned []" alice None nine_sharp]
      m l0
    by (simp add: w recordAttendanceWithSession_checkin nf n ts i0)
      (simp add: monday_morning_def)
  have s1: "post_attendance_scan no_faults nine_sharp ''A001'' (alice_scanned [first_in])
     = (alice_scanned [first_in, then_out], ScanRecorded alice ''check-out'' None False)"
    using post_attendance_scan_known [of "''A001''" no_faults "alice_scanned [first_in]" alice
        "Some first_in" nine_sharp] m l1
    by (simp add: recordAttendanceWithSession_checkout nf ts i1) (simp add: first_in_def)
  have s2: "post_attendance_scan no_faults nine_sharp ''A001'' (alice_scanned [first_in, then_out])
     = (alice_scanned [first_in, then_out, out_again],
        ScanRecorded alice ''check-out'' None False)"
    using post_attendance_scan_known [of "''A001''" no_faults
        "alice_scanned [first_in, then_out]" alice "Some first_in" nine_sharp] m l2
    by (simp add: recordAttendanceWithSession_checkout nf ts i2) (simp add: first_in_def)
  have r: "last (attendance_records (alice_scanned [first_in, then_out])) = then_out"
    "scan_time first_in = scan_time then_out" "ar_id first_in < ar_id then_out"
    by (simp_all add: alice_scanned_def first_in_def then_out_def)
  have o: "\<not> is_checkin then_out" by (simp add: then_out_def)
  from s0 s1 r o l2 s2 show ?thesis by simp
qed

subsection \<open>C6: check-ins in the last five minutes are flagged\<close>



subsection \<open>C7: a check-in outside every session writes nothing\<close>

text \<open>
  C7. A check-in scan (no last record, or a last check-out) for which the schedule query
  finds no active session leaves the database as it was, and the answer is the
  out-of-schedule rejection carrying the next session found by \<open>getNextMeetingSession\<close>
  (or no hint when it finds none); only when that lookup itself fails is the answer the
  database error, and the database is unchanged then too.
\<close>

theorem out_of_schedule_checkin_rejected:
  assumes "barcode \<noteq> []"
    and "getMemberByBarcode flt barcode db = Inr (Some member)"
    and "getLastScanForMember flt (m_id member) db = Inr lastScan"
    and "lastScan = None \<or> (\<exists>r. lastScan = Some r \<and> \<not> is_checkin r)"
    and "isWithinMeetingSchedule flt (at_isWithin clk) db = Inr None"
  shows "fst (post_attendance_scan flt clk barcode db) = db
     \<and> snd (post_attendance_scan flt clk barcode db) =
         (case getNextMeetingSession flt (at_getNext clk) db of
            Inl err \<Rightarrow> DatabaseError
          | Inr nextSession \<Rightarrow> CheckInNotAllowed (map_option next_hint nextSession))"
proof -
  have c: "(case lastScan of None \<Rightarrow> True | Some r \<Rightarrow> \<not> is_checkin r)"
    using assms(4) by auto
  show ?thesis
    unfolding post_attendance_scan_known [OF assms(1-3)]
    using c assms(5) by (simp split: sum.splits)
qed

theorem out_of_schedule_checkin_rejected_witness:
  "fst (post_attendance_scan no_faults (clock_at (sunday_at 10 0) ''2024-03-03 10:00:00'')
          ''A001'' monday_only) = monday_only
   \<and> snd (post_attendance_scan no_faults (clock_at (sunday_at 10 0) ''2024-03-03 10:00:00'')
          ''A001'' monday_only)
       = CheckInNotAllowed (Some \<lparr>hint_day = Some ''Monday'', hint_startTime = ''08:00'',
                                   hint_endTime = ''12:00''\<rparr>)"
proof -
  let ?clk = "clock_at (sunday_at 10 0) ''2024-03-03 10:00:00''"
  have h1: "''A001'' \<noteq> []" by simp
  have h4: "None = None \<or> (\<exists>r. None = Some r \<and> \<not> is_checkin r)" by simp
  have h5: "isWithinMeetingSchedule no_faults (at_isWithin ?clk) monday_only = Inr None"
    using sunday_outside by (simp add: clock_at_def)
  have n: "getNextMeetingSession no_faults (at_getNext ?clk) monday_only = Inr (Some monday_morning)"
    using sunday_next by (simp add: clock_at_def)
  have hint: "next_hint monday_morning = \<lparr>hint_day = Some ''Monday'', hint_startTime = ''08:00'',
                                   hint_endTime = ''12:00''\<rparr>"
    by (simp add: next_hint_def monday_morning_def dayNames_def)
  from out_of_schedule_checkin_rejected [OF h1 alice_by_barcode(1) alice_first_scan h4 h5]
  show ?thesis by (simp add: n hint)
qed

subsection \<open>C8: the trigger is 15 minutes after the end, on the session's own day\<close>

text \<open>
  C8 (amended). After a rearm whose read of the schedule table succeeds, in a table whose
  active rows have distinct keys (as the table's uniqueness constraint ensures),
  well-formed \<^verbatim>\<open>HH:MM\<close> end times and days of the week from 0 to 7, the job armed for an
  active session ending at minute \<open>e\<close> of the day has the session's own day of the week,
  and its hour \<open>h\<close> and minute \<open>m\<close> are those of \<open>e + 15\<close> taken modulo the 1440 minutes of a
  day: the minute overflow goes into the hour and the hour wraps past midnight. A session
  ending at 23:50 on day 5 is armed for 00:05 on day 5.
\<close>

theorem auto_logout_trigger_plus_15:
  assumes "\<not> flt RearmGetMeetingSchedules"
    and "distinct (map schedule_key (filter is_active (meeting_schedules db)))"
    and "\<forall>r\<in>set (meeting_schedules db). is_active r \<longrightarrow> schedulable r"
    and "s \<in> set (meeting_schedules db)" and "is_active s"
    and "minute_of_day (end_time s) = Some e"
  shows "\<exists>h m. fst (initializeMeetingScheduler flt db ms)
                  (schedulerId (day_of_week s) (session_number s))
               = Some \<lparr>cron_minute = Some m, cron_hour = Some h,
                       cron_day_of_week = day_of_week s\<rparr>
             \<and> 0 \<le> h \<and> h < 24 \<and> 0 \<le> m \<and> m < 60
             \<and> 60 * h + m = (int e + 15) mod 1440"
proof -
  let ?h = "int ((e + 15) div 60 mod 24)" and ?m = "int ((e + 15) mod 60)"
  have a: "\<forall>r\<in>set (meeting_schedules db). is_active r \<longrightarrow> cron_accepts (cron_for r)"
    using assms(3) by (simp add: schedulable_accepted)
  have "fst (initializeMeetingScheduler flt db ms) (schedulerId (day_of_week s) (session_number s))
          = Some (cron_for s)"
    using assms(1) a assms(2,4,5) by (rule initializeMeetingScheduler_lookup)
  then have 1: "fst (initializeMeetingScheduler flt db ms)
                  (schedulerId (day_of_week s) (session_number s))
               = Some \<lparr>cron_minute = Some ?m, cron_hour = Some ?h,
                       cron_day_of_week = day_of_week s\<rparr>"
    by (simp add: cron_for_wf [OF assms(6)])
  have "(e + 15) mod (60 * 24) = 60 * ((e + 15) div 60 mod 24) + (e + 15) mod 60"
    by (rule mod_mult2_eq)
  then have "int ((e + 15) mod 1440) = 60 * ?h + ?m"
    by simp
  then have 2: "60 * ?h + ?m = (int e + 15) mod 1440"
    by (simp add: zmod_int)
  have 3: "0 \<le> ?h" "?h < 24" "0 \<le> ?m" "?m < 60"
    by simp_all
  from 1 2 3 show ?thesis by blast
qed

theorem auto_logout_trigger_plus_15_witness:
  "fst (initializeMeetingScheduler no_faults friday_only Map.empty) (schedulerId 5 1)
     = Some \<lparr>cron_minute = Some 5, cron_hour = Some 0, cron_day_of_week = 5\<rparr>"
proof -
  have h1: "\<not> no_faults RearmGetMeetingSchedules" by (simp add: no_faults_def)
  have h2: "distinct (map schedule_key (filter is_active (meeting_schedules friday_only)))"
    by (simp add: friday_only_def)
  have k: "day_of_week friday_late = 5" "session_number friday_late = 1"
    by (simp_all add: friday_late_def)
  have h3: "\<forall>r\<in>set (meeting_schedules friday_only). is_active r \<longrightarrow> schedulable r"
    using friday_late_end by (simp add: friday_only_def schedulable_def wf_time_def k)
  have h4: "friday_late \<in> set (meeting_schedules friday_only)" by (simp add: friday_only_def)
  have h5: "is_active friday_late" by (simp add: friday_late_def)
  from auto_logout_trigger_plus_15 [of no_faults friday_only friday_late 1430 Map.empty]
    h1 h2 h3 h4 h5 friday_late_end
  obtain h m where job: "fst (initializeMeetingScheduler no_faults friday_only Map.empty)
        (schedulerId 5 1) = Some \<lparr>cron_minute = Some m, cron_hour = Some h, cron_day_of_week = 5\<rparr>"
    and r: "0 \<le> h" "h < 24" "0 \<le> m" "m < 60" "60 * h + m = (1430 + 15) mod 1440"
    unfolding k by auto
  from r have "60 * h + m = 5" by simp
  with r(1-4) have "h = 0 \<and> m = 5" by arith
  with job show ?thesis by simp
qed

text \<open>
  C8 as stated fails when some active session cannot be scheduled. The handler that
  replaces the schedule list stores the times as they were sent; for the Monday session
  stored with the end time \<^verbatim>\<open>12\<close> the minute field of the trigger is \<^verbatim>\<open>NaN\<close>, the cron
  library throws on it, and the loop over the sessions ends there: the active Tuesday
  session, ending at 12:00, gets no trigger.
\<close>

theorem malformed_row_blocks_triggers:
  "initializeMeetingScheduler no_faults malformed_first Map.empty = (Map.empty, CronScheduleThrew)
   \<and> meeting_schedules malformed_first = [monday_no_minutes, tuesday_morning]
   \<and> cron_for monday_no_minutes
       = \<lparr>cron_minute = None, cron_hour = Some 12, cron_day_of_week = 1\<rparr>
   \<and> is_active tuesday_morning
   \<and> minute_of_day (end_time tuesday_morning) = Some 720
   \<and> fst (initializeMeetingScheduler no_faults malformed_first Map.empty)
        (schedulerId (day_of_week tuesday_morning) (session_number tuesday_morning)) = None"
proof -
  have c: "cron_for monday_no_minutes
       = \<lparr>cron_minute = None, cron_hour = Some 12, cron_day_of_week = 1\<rparr>"
    by (simp add: cron_for_def logout_hour_minute_def split_hour_minute_def Number_def
        is_digit_def digit_val_def js_add_def js_ge_def monday_no_minutes_def)
  have g: "getMeetingSchedules False malformed_first = Inr [monday_no_minutes, tuesday_morning]"
    by (simp add: getMeetingSchedules_def malformed_first_def monday_no_minutes_def
        tuesday_morning_def)
  have 1: "initializeMeetingScheduler no_faults malformed_first Map.empty
             = (Map.empty, CronScheduleThrew)"
    by (simp add: initializeMeetingScheduler_def no_faults_def g c cron_accepts_def)
  have 2: "minute_of_day (end_time tuesday_morning) = Some 720"
    by (simp add: tuesday_morning_def minute_of_day_def is_digit_def digit_val_def)
  from 1 2 c show ?thesis
    by (simp add: malformed_first_def) (simp add: tuesday_morning_def)
qed

subsection \<open>C9: the force-logout pass\<close>

text \<open>
  C9. Let the pass have read the list of checked-in members. If the list is empty the pass
  changes nothing and reports that nobody is checked in. Otherwise it goes through the
  whole list: it appends one record for each member whose write does not fail, in the
  order of the list, each with \<^verbatim>\<open>is_checkin\<close> false, \<^verbatim>\<open>is_auto_logout\<close> true and
  \<^verbatim>\<open>needs_review\<close> true, keeps the records that were there, and reports the number of
  successful writes and the number of failed ones. A failed write for one member does not
  stop the writes for the members after it.
\<close>

theorem force_logout_pass:
  assumes "getCurrentlyCheckedInMembers flt db = Inr checkedIn"
  shows "(checkedIn = [] \<longrightarrow> performMeetingEndLogout flt ts db = (db, NoMembersCheckedIn))
     \<and> (checkedIn \<noteq> [] \<longrightarrow>
          (\<exists>db' new.
             performMeetingEndLogout flt ts db =
               (db', LogoutCompleted
                       (length (filter (\<lambda>c. \<not> flt (RecordAutoLogout (cm_id c))) checkedIn))
                       (length (filter (\<lambda>c. flt (RecordAutoLogout (cm_id c))) checkedIn)))
             \<and> attendance_records db' = attendance_records db @ new
             \<and> map member_id new =
                 map cm_id (filter (\<lambda>c. \<not> flt (RecordAutoLogout (cm_id c))) checkedIn)
             \<and> (\<forall>r\<in>set new. \<not> is_checkin r \<and> is_auto_logout r \<and> needs_review r)))"
proof (intro conjI impI)
  assume "checkedIn = []"
  with assms show "performMeetingEndLogout flt ts db = (db, NoMembersCheckedIn)"
    by (simp add: performMeetingEndLogout_def)
next
  assume ne: "checkedIn \<noteq> []"
  let ?F = "\<lambda>c. flt (RecordAutoLogout (cm_id c))"
  from foldl_logout_member [of flt ts db 0 0 checkedIn] obtain db' new where
    f: "foldl (logout_member flt ts) (db, 0, 0) checkedIn =
          (db', length checkedIn, length (filter ?F checkedIn))"
    and rest: "attendance_records db' = attendance_records db @ new"
      "map member_id new = map cm_id (filter (\<lambda>c. \<not> ?F c) checkedIn)"
      "\<forall>r\<in>set new. \<not> is_checkin r \<and> is_auto_logout r \<and> needs_review r"
    by auto
  have "length (filter ?F checkedIn) + length (filter (\<lambda>c. \<not> ?F c) checkedIn) = length checkedIn"
    by (rule sum_length_filter_compl)
  then have cnt: "length checkedIn - length (filter ?F checkedIn)
                    = length (filter (\<lambda>c. \<not> ?F c) checkedIn)"
    by simp
  have "performMeetingEndLogout flt ts db =
               (db', LogoutCompleted (length (filter (\<lambda>c. \<not> ?F c) checkedIn))
                       (length (filter ?F checkedIn)))"
    using assms ne f cnt by (simp add: performMeetingEndLogout_def)
  with rest show "\<exists>db' new.
             performMeetingEndLogout flt ts db =
               (db', LogoutCompleted
                       (length (filter (\<lambda>c. \<not> flt (RecordAutoLogout (cm_id c))) checkedIn))
                       (length (filter (\<lambda>c. flt (RecordAutoLogout (cm_id c))) checkedIn)))
             \<and> attendance_records db' = attendance_records db @ new
             \<and> map member_id new =
                 map cm_id (filter (\<lambda>c. \<not> flt (RecordAutoLogout (cm_id c))) checkedIn)
             \<and> (\<forall>r\<in>set new. \<not> is_checkin r \<and> is_auto_logout r \<and> needs_review r)"
    by blast
qed

theorem force_logout_pass_witness:
  "snd (performMeetingEndLogout alice_write_fails ''2024-03-04 12:15:00'' two_checked_in)
     = LogoutCompleted 1 1
   \<and> map member_id (drop 2 (attendance_records
         (fst (performMeetingEndLogout alice_write_fails ''2024-03-04 12:15:00'' two_checked_in))))
     = [2]
   \<and> take 2 (attendance_records
         (fst (performMeetingEndLogout alice_write_fails ''2024-03-04 12:15:00'' two_checked_in)))
     = attendance_records two_checked_in"
proof -
  let ?rows = "[\<lparr>cm_id = 1, cm_name = ''Alice'', last_checkin = ''2024-03-04 09:05:00''\<rparr>,
          \<lparr>cm_id = 2, cm_name = ''Bob'', last_checkin = ''2024-03-04 09:00:00''\<rparr>]"
  have ne: "?rows \<noteq> []" by simp
  from force_logout_pass [OF two_checked_in_rows, of "''2024-03-04 12:15:00''"] ne
  obtain db' new where
    p: "performMeetingEndLogout alice_write_fails ''2024-03-04 12:15:00'' two_checked_in =
          (db', LogoutCompleted
                  (length (filter (\<lambda>c. \<not> alice_write_fails (RecordAutoLogout (cm_id c))) ?rows))
                  (length (filter (\<lambda>c. alice_write_fails (RecordAutoLogout (cm_id c))) ?rows)))"
    and a: "attendance_records db' = attendance_records two_checked_in @ new"
    and m: "map member_id new =
             map cm_id (filter (\<lambda>c. \<not> alice_write_fails (RecordAutoLogout (cm_id c))) ?rows)"
    by blast
  have l: "length (attendance_records two_checked_in) = 2"
    by (simp add: two_checked_in_def)
  from p a m l show ?thesis
    by (simp add: alice_write_fails_def)
qed

subsection \<open>C10: a replaced schedule is active again\<close>

text \<open>
  C10 (amended). When \<^verbatim>\<open>PUT /api/meeting-schedules\<close> reads the current schedules and the
  upsert of an entry of the new list succeeds, the table afterwards has a row with the
  entry's key (day of week, session number) and every row with that key has \<^verbatim>\<open>is_active\<close>
  true. Nothing is assumed about the table before: the key may have been soft-deleted.
  When no database call fails, the answer is success and every row with that key holds
  the fields of an entry of the list. The key's auto-logout trigger is armed again when,
  in addition, every entry of the list has a well-formed \<^verbatim>\<open>HH:MM\<close> end time and a day of
  the week from 0 to 7: the trigger is then the one of the stored row, at its end time
  plus 15 minutes on the key's day of the week.
\<close>

theorem replaced_schedule_is_active:
  assumes "\<not> flt GetMeetingSchedules" and "s \<in> set schedules"
    and "\<not> flt (UpdateMeetingSchedule (dayOfWeek s) (sessionNumber s))"
  shows "\<exists>db' ms' answer.
      put_meeting_schedules flt schedules (db, ms) = ((db', ms'), answer)
      \<and> (\<exists>r\<in>set (meeting_schedules db').
            day_of_week r = dayOfWeek s \<and> session_number r = sessionNumber s)
      \<and> (\<forall>r\<in>set (meeting_schedules db').
            day_of_week r = dayOfWeek s \<and> session_number r = sessionNumber s \<longrightarrow> is_active r)
      \<and> ((\<forall>c. \<not> flt c) \<longrightarrow>
            answer = SchedulesUpdated
            \<and> (\<forall>r\<in>set (meeting_schedules db').
                  day_of_week r = dayOfWeek s \<and> session_number r = sessionNumber s \<longrightarrow>
                  (\<exists>x\<in>set schedules. stored_from x r))
            \<and> ((\<forall>x\<in>set schedules. wf_time (endTime x) \<and> 0 \<le> dayOfWeek x \<and> dayOfWeek x \<le> 7) \<longrightarrow>
                 (\<exists>r\<in>set (meeting_schedules db'). \<exists>e.
                     day_of_week r = dayOfWeek s \<and> session_number r = sessionNumber s
                     \<and> minute_of_day (end_time r) = Some e
                     \<and> ms' (schedulerId (dayOfWeek s) (sessionNumber s))
                         = Some \<lparr>cron_minute = Some (int ((e + 15) mod 60)),
                                 cron_hour = Some (int ((e + 15) div 60 mod 24)),
                                 cron_day_of_week = dayOfWeek s\<rparr>)))"
proof -
  obtain current where cur: "getMeetingSchedules False db = Inr current"
    by (simp add: getMeetingSchedules_def)
  let ?del = "filter (\<lambda>c. schedulerId (day_of_week c) (session_number c)
                  \<notin> set (map (\<lambda>s. schedulerId (dayOfWeek s) (sessionNumber s)) schedules)) current"
  let ?st = "foldl (update_step flt) (foldl (delete_step flt) (db, 0) ?del) schedules"
  obtain db' e where st: "?st = (db', e)" by (cases ?st)
  let ?ms' = "if e = 0 then fst (initializeMeetingScheduler flt db' ms) else ms"
  let ?answer = "if e = 0 then SchedulesUpdated else SomeSchedulesFailed"
  have ne: "schedules \<noteq> []" using assms(2) by auto
  have put: "put_meeting_schedules flt schedules (db, ms) = ((db', ?ms'), ?answer)"
    using put_meeting_schedules_steps [OF assms(1) ne cur st, of ms] by simp
  have act: "active_at_key (dayOfWeek s, sessionNumber s) db'"
    using foldl_update_step_active [of s schedules flt "foldl (delete_step flt) (db, 0) ?del"]
      assms(2,3) st by simp
  from act have rows:
    "\<exists>r\<in>set (meeting_schedules db').
            day_of_week r = dayOfWeek s \<and> session_number r = sessionNumber s"
    and active: "\<forall>r\<in>set (meeting_schedules db').
            day_of_week r = dayOfWeek s \<and> session_number r = sessionNumber s \<longrightarrow> is_active r"
    by (auto simp: active_at_key_def schedule_key_def)
  have ok: "?answer = SchedulesUpdated
            \<and> (\<forall>r\<in>set (meeting_schedules db').
                  day_of_week r = dayOfWeek s \<and> session_number r = sessionNumber s \<longrightarrow>
                  (\<exists>x\<in>set schedules. stored_from x r))
            \<and> ((\<forall>x\<in>set schedules. wf_time (endTime x) \<and> 0 \<le> dayOfWeek x \<and> dayOfWeek x \<le> 7) \<longrightarrow>
                 (\<exists>r\<in>set (meeting_schedules db'). \<exists>e.
                     day_of_week r = dayOfWeek s \<and> session_number r = sessionNumber s
                     \<and> minute_of_day (end_time r) = Some e
                     \<and> ?ms' (schedulerId (dayOfWeek s) (sessionNumber s))
                         = Some \<lparr>cron_minute = Some (int ((e + 15) mod 60)),
                                 cron_hour = Some (int ((e + 15) div 60 mod 24)),
                                 cron_day_of_week = dayOfWeek s\<rparr>))"
    if nf: "\<forall>c. \<not> flt c"
  proof -
    obtain db0 e0 where d: "foldl (delete_step flt) (db, 0) ?del = (db0, e0)"
      by (cases "foldl (delete_step flt) (db, 0) ?del")
    have e0: "e0 = 0"
      using foldl_delete_step_errors [of flt db 0 ?del] nf d by simp
    have e: "e = 0"
      using foldl_update_step_errors [of flt db0 e0 schedules] nf d st e0 by simp
    from replaced_rows [OF nf cur st]
    have stored: "\<forall>r\<in>set (meeting_schedules db'). is_active r \<longrightarrow>
                    (\<exists>x\<in>set schedules. stored_from x r)"
      and dist: "distinct (map schedule_key (filter is_active (meeting_schedules db')))"
      by simp_all
    have p2: "\<forall>r\<in>set (meeting_schedules db').
                  day_of_week r = dayOfWeek s \<and> session_number r = sessionNumber s \<longrightarrow>
                  (\<exists>x\<in>set schedules. stored_from x r)"
      using stored active by blast
    have p3: "\<exists>r\<in>set (meeting_schedules db'). \<exists>e.
                     day_of_week r = dayOfWeek s \<and> session_number r = sessionNumber s
                     \<and> minute_of_day (end_time r) = Some e
                     \<and> fst (initializeMeetingScheduler flt db' ms)
                          (schedulerId (dayOfWeek s) (sessionNumber s))
                         = Some \<lparr>cron_minute = Some (int ((e + 15) mod 60)),
                                 cron_hour = Some (int ((e + 15) div 60 mod 24)),
                                 cron_day_of_week = dayOfWeek s\<rparr>"
      if wf: "\<forall>x\<in>set schedules. wf_time (endTime x) \<and> 0 \<le> dayOfWeek x \<and> dayOfWeek x \<le> 7"
    proof -
      have sch: "schedulable r" if "r \<in> set (meeting_schedules db')" "is_active r" for r
      proof -
        from stored that obtain x where "x \<in> set schedules" "stored_from x r" by blast
        with wf show ?thesis by (auto simp: schedulable_def stored_from_def)
      qed
      then have acc: "\<forall>r\<in>set (meeting_schedules db'). is_active r \<longrightarrow> cron_accepts (cron_for r)"
        by (auto intro: schedulable_accepted)
      from rows obtain r where r: "r \<in> set (meeting_schedules db')"
        "day_of_week r = dayOfWeek s" "session_number r = sessionNumber s"
        by blast
      with active have ra: "is_active r" by blast
      from sch [OF r(1) ra] obtain e' where e': "minute_of_day (end_time r) = Some e'"
        by (auto simp: schedulable_def wf_time_def)
      have r0: "\<not> flt RearmGetMeetingSchedules" using nf by simp
      have "fst (initializeMeetingScheduler flt db' ms)
              (schedulerId (day_of_week r) (session_number r)) = Some (cron_for r)"
        using r0 acc dist r(1) ra by (rule initializeMeetingScheduler_lookup)
      then have "fst (initializeMeetingScheduler flt db' ms)
              (schedulerId (dayOfWeek s) (sessionNumber s))
            = Some \<lparr>cron_minute = Some (int ((e' + 15) mod 60)),
                    cron_hour = Some (int ((e' + 15) div 60 mod 24)),
                    cron_day_of_week = dayOfWeek s\<rparr>"
        by (simp add: cron_for_wf [OF e'] r(2,3))
      with r e' show ?thesis by blast
    qed
    from e p2 p3 show ?thesis by simp
  qed
  from put rows active ok show ?thesis by blast
qed

theorem replaced_schedule_is_active_witness:
  "\<not> list_all is_active (meeting_schedules monday_deleted)
   \<and> (\<exists>db' ms'.
      put_meeting_schedules no_faults [monday_again] (monday_deleted, Map.empty)
        = ((db', ms'), SchedulesUpdated)
      \<and> meeting_schedules db'
          = [\<lparr>day_of_week = 1, session_number = 1, start_time = ''09:00'', end_time = ''11:00'',
              is_active = True, session_name = Some ''Session 1''\<rparr>]
      \<and> ms' (schedulerId 1 1)
          = Some \<lparr>cron_minute = Some 15, cron_hour = Some 11, cron_day_of_week = 1\<rparr>)"
proof -
  have h0: "\<forall>c. \<not> no_faults c" by (simp add: no_faults_def)
  have h1: "\<not> no_faults GetMeetingSchedules"
    "\<not> no_faults (UpdateMeetingSchedule (dayOfWeek monday_again) (sessionNumber monday_again))"
    by (simp_all add: no_faults_def)
  have h2: "monday_again \<in> set [monday_again]" by simp
  have k: "dayOfWeek monday_again = 1" "sessionNumber monday_again = 1"
    by (simp_all add: monday_again_def)
  have e11: "minute_of_day ''11:00'' = Some 660"
    by (simp add: minute_of_day_def is_digit_def digit_val_def)
  have wf: "\<forall>x\<in>set [monday_again]. wf_time (endTime x) \<and> 0 \<le> dayOfWeek x \<and> dayOfWeek x \<le> 7"
    using e11 by (simp add: monday_again_def wf_time_def)
  have rows: "meeting_schedules (fst (fst (put_meeting_schedules no_faults [monday_again]
          (monday_deleted, Map.empty))))
        = [\<lparr>day_of_week = 1, session_number = 1, start_time = ''09:00'', end_time = ''11:00'',
            is_active = True, session_name = Some ''Session 1''\<rparr>]"
    by (simp add: put_meeting_schedules_def getMeetingSchedules_def no_faults_def
        monday_deleted_def monday_morning_def monday_again_def update_step_def
        updateMeetingSchedule_def string_of_int_def string_of_nat.simps digit_char_def)
  from replaced_schedule_is_active [of no_faults monday_again "[monday_again]" monday_deleted
      Map.empty, OF h1(1) h2 h1(2)]
  obtain db' ms' answer where
    p: "put_meeting_schedules no_faults [monday_again] (monday_deleted, Map.empty)
        = ((db', ms'), answer)"
    and ok: "(\<forall>c. \<not> no_faults c) \<longrightarrow>
            answer = SchedulesUpdated
            \<and> (\<forall>r\<in>set (meeting_schedules db').
                  day_of_week r = dayOfWeek monday_again
                  \<and> session_number r = sessionNumber monday_again \<longrightarrow>
                  (\<exists>x\<in>set [monday_again]. stored_from x r))
            \<and> ((\<forall>x\<in>set [monday_again].
                    wf_time (endTime x) \<and> 0 \<le> dayOfWeek x \<and> dayOfWeek x \<le> 7) \<longrightarrow>
                 (\<exists>r\<in>set (meeting_schedules db'). \<exists>e.
                     day_of_week r = dayOfWeek monday_again
                     \<and> session_number r = sessionNumber monday_again
                     \<and> minute_of_day (end_time r) = Some e
                     \<and> ms' (schedulerId (dayOfWeek monday_again) (sessionNumber monday_again))
                         = Some \<lparr>cron_minute = Some (int ((e + 15) mod 60)),
                                 cron_hour = Some (int ((e + 15) div 60 mod 24)),
                                 cron_day_of_week = dayOfWeek monday_again\<rparr>))"
    by (elim exE conjE) (rule that, assumption+)
  from p rows have r': "meeting_schedules db'
        = [\<lparr>day_of_week = 1, session_number = 1, start_time = ''09:00'', end_time = ''11:00'',
            is_active = True, session_name = Some ''Session 1''\<rparr>]"
    by simp
  from ok h0 wf have a: "answer = SchedulesUpdated"
    and "\<exists>r\<in>set (meeting_schedules db'). \<exists>e.
                     day_of_week r = dayOfWeek monday_again
                     \<and> session_number r = sessionNumber monday_again
                     \<and> minute_of_day (end_time r) = Some e
                     \<and> ms' (schedulerId (dayOfWeek monday_again) (sessionNumber monday_again))
                         = Some \<lparr>cron_minute = Some (int ((e + 15) mod 60)),
                                 cron_hour = Some (int ((e + 15) div 60 mod 24)),
                                 cron_day_of_week = dayOfWeek monday_again\<rparr>"
    by blast+
  then obtain e where "minute_of_day ''11:00'' = Some e"
    and "ms' (schedulerId 1 1) = Some \<lparr>cron_minute = Some (int ((e + 15) mod 60)),
                                 cron_hour = Some (int ((e + 15) div 60 mod 24)),
                                 cron_day_of_week = 1\<rparr>"
    unfolding r' k by auto
  then have j: "ms' (schedulerId 1 1)
          = Some \<lparr>cron_minute = Some 15, cron_hour = Some 11, cron_day_of_week = 1\<rparr>"
    by (simp add: e11)
  have old: "\<not> list_all is_active (meeting_schedules monday_deleted)"
    by (simp add: monday_deleted_def)
  from p a r' j old show ?thesis by simp
qed

text \<open>
  C10 as stated fails in its last part: the handler stores the times as they were sent,
  and a stored end time that is not a time leaves the key without a trigger. Replacing
  the soft-deleted Monday session by an entry whose end time is \<^verbatim>\<open>banana\<close> is answered
  with success and the stored row is active, but both fields of its trigger are \<^verbatim>\<open>NaN\<close>,
  the cron library throws, and no trigger is armed for the key.
\<close>

theorem replaced_schedule_not_rearmed:
  "put_meeting_schedules no_faults [monday_banana] (monday_deleted, Map.empty)
     = ((monday_deleted\<lparr>meeting_schedules :=
           [\<lparr>day_of_week = 1, session_number = 1, start_time = ''09:00'',
             end_time = ''banana'', is_active = True, session_name = Some ''Session 1''\<rparr>]\<rparr>,
         Map.empty),
        SchedulesUpdated)
   \<and> snd (fst (put_meeting_schedules no_faults [monday_banana] (monday_deleted, Map.empty)))
        (schedulerId (dayOfWeek monday_banana) (sessionNumber monday_banana)) = None
   \<and> split_hour_minute (endTime monday_banana) = (None, None)"
proof -
  let ?row = "\<lparr>day_of_week = 1, session_number = 1, start_time = ''09:00'',
             end_time = ''banana'', is_active = True, session_name = Some ''Session 1''\<rparr>"
  have s: "split_hour_minute ''banana'' = (None, None)"
    by (simp add: split_hour_minute_def Number_def is_digit_def)
  have c: "\<not> cron_accepts (cron_for ?row)"
    by (simp add: cron_for_def logout_hour_minute_def s js_add_def js_ge_def cron_accepts_def)
  have g: "getMeetingSchedules False (monday_deleted\<lparr>meeting_schedules := [?row]\<rparr>) = Inr [?row]"
    by (simp add: getMeetingSchedules_def)
  have i: "initializeMeetingScheduler no_faults (monday_deleted\<lparr>meeting_schedules := [?row]\<rparr>)
             Map.empty = (Map.empty, CronScheduleThrew)"
    using c by (simp add: initializeMeetingScheduler_def no_faults_def g)
  have f: "update_step no_faults (monday_deleted, 0) monday_banana
             = (monday_deleted\<lparr>meeting_schedules := [?row]\<rparr>, 0)"
    by (simp add: update_step_def updateMeetingSchedule_def no_faults_def monday_deleted_def
        monday_morning_def monday_banana_def string_of_int_def string_of_nat.simps digit_char_def)
  have rd: "getMeetingSchedules (no_faults GetMeetingSchedules) monday_deleted = Inr []"
    by (simp add: getMeetingSchedules_def no_faults_def monday_deleted_def)
  have p: "put_meeting_schedules no_faults [monday_banana] (monday_deleted, Map.empty)
     = ((monday_deleted\<lparr>meeting_schedules := [?row]\<rparr>, Map.empty), SchedulesUpdated)"
    by (simp add: put_meeting_schedules_def Let_def rd f i)
  from p s show ?thesis by (simp add: monday_banana_def)
qed

end
